theory Spec2Isabelle
  imports Complex_Main "HOL-Library.Sublist"
begin

section \<open>Data model (src/main.py, lines 10-46)\<close>

text \<open>
  The pydantic schemas of \<^verbatim>\<open>main.py\<close>. Field names carry a prefix where two schemas
  share a name (\<^verbatim>\<open>id\<close>, \<^verbatim>\<open>name\<close>, \<^verbatim>\<open>site\<close>). The two \<^verbatim>\<open>float\<close> fields are
  opaque payload: no code path computes with them.
\<close>

record Provider =
  prov_id :: string
  prov_name :: string
  call_sign :: "string option"
  fte :: real
  acc_target :: int
  call_target :: int
  site_preferences :: "string list"
  qualifications :: "string list"
  seniority_level :: int
  politics_weight :: real

record ShiftType =
  shift_id :: string
  shift_name :: string
  shift_site :: string
  weekly :: bool
  requires_qualification :: "string option"

text \<open>
  An Assignment document as \<^verbatim>\<open>generate_schedule\<close> writes it and \<^verbatim>\<open>list_assignments\<close>
  reads it: the date is stored as a string.
\<close>

record Assignment =
  provider_id :: string
  date :: string
  shift_type :: string
  site :: string
  generated_by :: string
  audited_by :: "string option"

record GenerateRequest =
  start_date :: int
  end_date :: int

record GenerateResponse =
  created :: int
  conflicts :: "string list"

datatype HTTPException = HTTPException (status_code: int) (detail: string)

text \<open>
  The three collections \<^verbatim>\<open>PROVIDER_COL\<close>, \<^verbatim>\<open>SHIFT_COL\<close>, \<^verbatim>\<open>ASSIGN_COL\<close>, each a
  sequence of documents in store order. The global \<^verbatim>\<open>db\<close> is a \<open>store option\<close>:
  \<open>None\<close> is Python's \<^verbatim>\<open>db is None\<close>.
\<close>

record store =
  provider :: "Provider list"
  shifttype :: "ShiftType list"
  assignment :: "Assignment list"

section \<open>Store operations\<close>

definition find_one :: "('a \<Rightarrow> bool) \<Rightarrow> 'a list \<Rightarrow> 'a option" where
  "find_one flt col = List.find flt col"

definition find_all :: "('a \<Rightarrow> bool) \<Rightarrow> 'a list \<Rightarrow> 'a list" where
  "find_all flt col = filter flt col"

text \<open>
  Modelled from the spec: \<^verbatim>\<open>create_document\<close> of the module \<^verbatim>\<open>database\<close>, which is
  imported by \<^verbatim>\<open>main.py\<close> and not part of the sources. The spec gives the store an
  \<^verbatim>\<open>insert(collection, record)\<close> that persists the record verbatim; a scan returns the
  documents in store order, so the new document comes last.
\<close>

definition create_document :: "'a list \<Rightarrow> 'a \<Rightarrow> 'a list" where
  "create_document col doc = col @ [doc]"

section \<open>Dates\<close>

text \<open>
  A \<^verbatim>\<open>datetime.date\<close> is represented by its proleptic Gregorian ordinal
  (\<^verbatim>\<open>toordinal()\<close>), which ranges over \<open>1 .. 3652059\<close> (\<^verbatim>\<open>date.min\<close> to
  \<^verbatim>\<open>date.max\<close>). \<open>ord2ymd\<close> is CPython's \<^verbatim>\<open>_ord2ymd\<close>, used by
  \<^verbatim>\<open>date.fromordinal\<close>; \<open>isoformat\<close> is \<^verbatim>\<open>"%04d-%02d-%02d"\<close>, which is what
  \<^verbatim>\<open>str(day_date)\<close> returns.
\<close>

definition valid_date :: "int \<Rightarrow> bool" where
  "valid_date n \<longleftrightarrow> 1 \<le> n \<and> n \<le> 3652059"

definition DAYS_IN_MONTH :: "int list" where
  "DAYS_IN_MONTH = [-1, 31, 28, 31, 30, 31, 30, 31, 31, 30, 31, 30, 31]"

definition DAYS_BEFORE_MONTH :: "int list" where
  "DAYS_BEFORE_MONTH = [-1, 0, 31, 59, 90, 120, 151, 181, 212, 243, 273, 304, 334]"

definition ord2ymd :: "int \<Rightarrow> int \<times> int \<times> int" where
  "ord2ymd n0 =
    (let n = n0 - 1;
         n400 = n div 146097; n = n mod 146097;
         year = n400 * 400 + 1;
         n100 = n div 36524; n = n mod 36524;
         n4 = n div 1461; n = n mod 1461;
         n1 = n div 365; n = n mod 365;
         year = year + n100 * 100 + n4 * 4 + n1
     in if n1 = 4 \<or> n100 = 4 then (year - 1, 12, 31)
        else
          let leapyear = (n1 = 3 \<and> (n4 \<noteq> 24 \<or> n100 = 3));
              month = (n + 50) div 32;
              preceding = DAYS_BEFORE_MONTH ! nat month + (if month > 2 \<and> leapyear then 1 else 0)
          in if preceding > n
             then
               let month = month - 1;
                   preceding = preceding
                     - (DAYS_IN_MONTH ! nat month + (if month = 2 \<and> leapyear then 1 else 0))
               in (year, month, n - preceding + 1)
             else (year, month, n - preceding + 1))"

definition digit :: "int \<Rightarrow> char" where
  "digit k = ''0123456789'' ! nat k"

definition isoformat :: "int \<times> int \<times> int \<Rightarrow> string" where
  "isoformat ymd =
    (case ymd of (y, m, d) \<Rightarrow>
      [digit (y div 1000 mod 10), digit (y div 100 mod 10), digit (y div 10 mod 10), digit (y mod 10),
       CHR ''-'', digit (m div 10 mod 10), digit (m mod 10),
       CHR ''-'', digit (d div 10 mod 10), digit (d mod 10)])"

definition date_str :: "int \<Rightarrow> string" where
  "date_str n = isoformat (ord2ymd n)"

text \<open>
  The inverse direction, CPython's \<^verbatim>\<open>_ymd2ord\<close> behind \<^verbatim>\<open>date.toordinal()\<close>, with its
  helpers \<^verbatim>\<open>_is_leap\<close>, \<^verbatim>\<open>_days_before_year\<close> and \<^verbatim>\<open>_days_before_month\<close>.
\<close>

definition is_leap :: "int \<Rightarrow> bool" where
  "is_leap year \<longleftrightarrow> year mod 4 = 0 \<and> (year mod 100 \<noteq> 0 \<or> year mod 400 = 0)"

definition days_before_year :: "int \<Rightarrow> int" where
  "days_before_year year = (let y = year - 1 in y * 365 + y div 4 - y div 100 + y div 400)"

definition days_before_month :: "int \<Rightarrow> int \<Rightarrow> int" where
  "days_before_month year month =
     DAYS_BEFORE_MONTH ! nat month + (if month > 2 \<and> is_leap year then 1 else 0)"

definition ymd2ord :: "int \<times> int \<times> int \<Rightarrow> int" where
  "ymd2ord ymd = (case ymd of (year, month, day) \<Rightarrow>
     days_before_year year + days_before_month year month + day)"

section \<open>Creation endpoints (src/main.py, lines 81-108)\<close>

definition create_provider ::
  "store option \<Rightarrow> Provider \<Rightarrow> (HTTPException + Provider) \<times> store option" where
  "create_provider db prov =
    (case db of
       None \<Rightarrow> (Inl (HTTPException 500 ''Database not configured''), db)
     | Some s \<Rightarrow>
        (case find_one (\<lambda>d. prov_id d = prov_id prov) (provider s) of
           Some existing \<Rightarrow> (Inl (HTTPException 400 ''Provider already exists''), db)
         | None \<Rightarrow> (Inr prov, Some (s\<lparr>provider := create_document (provider s) prov\<rparr>))))"

definition create_shift_type ::
  "store option \<Rightarrow> ShiftType \<Rightarrow> (HTTPException + ShiftType) \<times> store option" where
  "create_shift_type db shift =
    (case db of
       None \<Rightarrow> (Inl (HTTPException 500 ''Database not configured''), db)
     | Some s \<Rightarrow>
        (case find_one (\<lambda>d. shift_id d = shift_id shift) (shifttype s) of
           Some existing \<Rightarrow> (Inl (HTTPException 400 ''ShiftType already exists''), db)
         | None \<Rightarrow> (Inr shift, Some (s\<lparr>shifttype := create_document (shifttype s) shift\<rparr>))))"

section \<open>Schedule generation (src/main.py, lines 125-168)\<close>

text \<open>The local variables of \<^verbatim>\<open>generate_schedule\<close> that its loops update, and the store.\<close>

record locals =
  l_conflicts :: "string list"
  l_created :: int
  l_p :: nat
  l_db :: store

definition py_range :: "int \<Rightarrow> int list" where
  "py_range n = map int [0..<nat n]"

text \<open>
  The two tests of the inner loop and the document it inserts (lines 151, 154, 157-163) and
  the message of line 167. \<^verbatim>\<open>find_one\<close> returns a document or \<^verbatim>\<open>None\<close>, and a
  document is true. \<^verbatim>\<open>needed_qual\<close> is tested for truth, so \<^verbatim>\<open>None\<close> and the empty
  string both switch the qualification gate off. A stored provider has a list of
  qualifications, so \<^verbatim>\<open>prov.get("qualifications") or []\<close> is that list.
\<close>

definition double_booked :: "store \<Rightarrow> Provider \<Rightarrow> string \<Rightarrow> bool" where
  "double_booked s prov day_date \<longleftrightarrow>
     find_one (\<lambda>a. provider_id a = prov_id prov \<and> date a = day_date) (assignment s) \<noteq> None"

definition lacks_qualification :: "string option \<Rightarrow> Provider \<Rightarrow> bool" where
  "lacks_qualification needed_qual prov \<longleftrightarrow>
     (case needed_qual of
        None \<Rightarrow> False
      | Some q \<Rightarrow> q \<noteq> [] \<and> q \<notin> set (qualifications prov))"

definition new_assignment :: "Provider \<Rightarrow> string \<Rightarrow> string \<Rightarrow> Assignment" where
  "new_assignment prov day_date site_v =
     \<lparr>provider_id = prov_id prov, date = day_date, shift_type = ''REG'',
      site = site_v, generated_by = ''AI'', audited_by = None\<rparr>"

definition conflict_msg :: "string \<Rightarrow> string" where
  "conflict_msg day_date = ''No eligible provider for '' @ day_date"

text \<open>
  The \<^verbatim>\<open>while tries < len(providers)\<close> loop with its \<^verbatim>\<open>else\<close> branch (lines 146-167).
  A \<^verbatim>\<open>continue\<close> is the recursive call, the \<^verbatim>\<open>break\<close> returns, and the \<^verbatim>\<open>else\<close>
  branch runs when the loop condition fails.
\<close>

function while_tries ::
  "Provider list \<Rightarrow> string \<Rightarrow> string option \<Rightarrow> string \<Rightarrow> nat \<Rightarrow> locals \<Rightarrow> locals" where
  "while_tries providers site_v needed_qual day_date tries st =
    (if tries < length providers then
       (let prov = providers ! (l_p st mod length providers);
            st1 = st\<lparr>l_p := l_p st + 1\<rparr>;
            tries1 = tries + 1
        in if double_booked (l_db st1) prov day_date
           then while_tries providers site_v needed_qual day_date tries1 st1
           else if lacks_qualification needed_qual prov
           then while_tries providers site_v needed_qual day_date tries1 st1
           else st1\<lparr>l_db := (l_db st1)\<lparr>assignment :=
                        create_document (assignment (l_db st1))
                          (new_assignment prov day_date site_v)\<rparr>,
                    l_created := l_created st1 + 1\<rparr>)
     else st\<lparr>l_conflicts := l_conflicts st @ [conflict_msg day_date]\<rparr>)"
  by pat_completeness auto
termination
  by (relation "measure (\<lambda>(providers, site_v, needed_qual, day_date, tries, st).
        length providers - tries)") auto

declare while_tries.simps [simp del]

text \<open>The body of the day loop: one iteration of \<^verbatim>\<open>for i in range(days)\<close> (lines 142-167).\<close>

definition day_body ::
  "Provider list \<Rightarrow> ShiftType list \<Rightarrow> string \<Rightarrow> string option \<Rightarrow> int \<Rightarrow> int \<Rightarrow> locals \<Rightarrow> locals" where
  "day_body providers shifts site_v needed_qual start i st =
    (let day = start + i;
         day_date = date_str day
     in fold (\<lambda>_ st'. while_tries providers site_v needed_qual day_date 0 st')
          (py_range (min (int (length providers)) (int (length shifts)))) st)"

definition generate_schedule ::
  "store option \<Rightarrow> GenerateRequest \<Rightarrow> (HTTPException + GenerateResponse) \<times> store option" where
  "generate_schedule db req =
    (case db of
       None \<Rightarrow> (Inl (HTTPException 500 ''Database not configured''), db)
     | Some s \<Rightarrow>
        (let providers = provider s;
             shifts = find_all (\<lambda>d. shift_name d = ''REG'') (shifttype s)
         in if providers = [] \<or> shifts = []
            then (Inl (HTTPException 400 ''Providers and REG Shift Type required''), db)
            else
              (let days = (end_date req - start_date req) + 1;
                   site_v = shift_site (hd shifts);
                   needed_qual = requires_qualification (hd shifts);
                   st = fold (day_body providers shifts site_v needed_qual (start_date req))
                          (py_range days)
                          \<lparr>l_conflicts = [], l_created = 0, l_p = 0, l_db = s\<rparr>
               in (Inr \<lparr>created = l_created st, conflicts = l_conflicts st\<rparr>, Some (l_db st)))))"

section \<open>Routing of POST requests\<close>

text \<open>
  The route table of the application: the three POST routes and six GET routes of the
  decorators of \<^verbatim>\<open>main.py\<close> (lines 81, 100, 125 and 49, 53, 57, 93, 110, 170), and the
  four GET routes that \<^verbatim>\<open>FastAPI(title=...)\<close> registers by default (line 7). The router
  answers a POST as follows. A path with a POST route reaches its handler once the body has
  passed the validation of the handler's schema, and is answered 422 otherwise; the schemas
  constrain \<^verbatim>\<open>fte\<close> to \<open>[0, 1]\<close> (line 14) and the two dates to be dates. A path
  registered for GET only is answered 405. Any other path except \<^verbatim>\<open>/\<close> is answered with
  the redirect 307 when the path without its trailing slashes (or, if it has none, with one
  added) is a registered path, and 404 otherwise. The framework's own answers are given by
  status code and reason phrase.
\<close>

datatype body =
    ProviderBody Provider
  | ShiftTypeBody ShiftType
  | AssignmentBody Assignment
  | GenerateRequestBody GenerateRequest
  | GenerateResponseBody GenerateResponse

definition post_routes :: "string list" where
  "post_routes = [''/providers'', ''/shift-types'', ''/generate'']"

definition get_routes :: "string list" where
  "get_routes = [''/openapi.json'', ''/docs'', ''/docs/oauth2-redirect'', ''/redoc'',
                 ''/'', ''/health'', ''/test'', ''/providers'', ''/shift-types'', ''/assignments'']"

definition rstrip_slash :: "string \<Rightarrow> string" where
  "rstrip_slash path = rev (dropWhile (\<lambda>c. c = CHR ''/'') (rev path))"

definition redirect_path :: "string \<Rightarrow> string" where
  "redirect_path path =
     (if path \<noteq> [] \<and> last path = CHR ''/'' then rstrip_slash path else path @ ''/'')"

definition post ::
  "store option \<Rightarrow> string \<Rightarrow> body \<Rightarrow> (HTTPException + body) \<times> store option" where
  "post db path b =
    (if path = ''/providers'' then
       (case b of
          ProviderBody prov \<Rightarrow>
            if 0 \<le> fte prov \<and> fte prov \<le> 1
            then apfst (map_sum (\<lambda>e. e) ProviderBody) (create_provider db prov)
            else (Inl (HTTPException 422 ''Unprocessable Entity''), db)
        | _ \<Rightarrow> (Inl (HTTPException 422 ''Unprocessable Entity''), db))
     else if path = ''/shift-types'' then
       (case b of
          ShiftTypeBody shift \<Rightarrow> apfst (map_sum (\<lambda>e. e) ShiftTypeBody) (create_shift_type db shift)
        | _ \<Rightarrow> (Inl (HTTPException 422 ''Unprocessable Entity''), db))
     else if path = ''/generate'' then
       (case b of
          GenerateRequestBody req \<Rightarrow>
            if valid_date (start_date req) \<and> valid_date (end_date req)
            then apfst (map_sum (\<lambda>e. e) GenerateResponseBody) (generate_schedule db req)
            else (Inl (HTTPException 422 ''Unprocessable Entity''), db)
        | _ \<Rightarrow> (Inl (HTTPException 422 ''Unprocessable Entity''), db))
     else if path \<in> set get_routes then (Inl (HTTPException 405 ''Method Not Allowed''), db)
     else if path \<noteq> ''/'' \<and> redirect_path path \<in> set (post_routes @ get_routes)
     then (Inl (HTTPException 307 ''Temporary Redirect''), db)
     else (Inl (HTTPException 404 ''Not Found''), db))"

section \<open>Auxiliary notions for stating the properties\<close>

text \<open>
  A provider passes both tests of the inner loop; the candidate drawn at cursor value \<open>k\<close>;
  and the two ways the inner loop can end, after \<open>k\<close> draws.
\<close>

definition eligible :: "store \<Rightarrow> string option \<Rightarrow> string \<Rightarrow> Provider \<Rightarrow> bool" where
  "eligible s needed_qual day_date prov \<longleftrightarrow>
     \<not> double_booked s prov day_date \<and> \<not> lacks_qualification needed_qual prov"

definition candidate :: "Provider list \<Rightarrow> nat \<Rightarrow> Provider" where
  "candidate providers k = providers ! (k mod length providers)"

definition assign :: "Provider \<Rightarrow> string \<Rightarrow> string \<Rightarrow> nat \<Rightarrow> locals \<Rightarrow> locals" where
  "assign prov day_date site_v k st =
     st\<lparr>l_p := l_p st + k,
        l_db := (l_db st)\<lparr>assignment :=
                  assignment (l_db st) @ [new_assignment prov day_date site_v]\<rparr>,
        l_created := l_created st + 1\<rparr>"

definition give_up :: "string \<Rightarrow> nat \<Rightarrow> locals \<Rightarrow> locals" where
  "give_up day_date k st =
     st\<lparr>l_p := l_p st + k, l_conflicts := l_conflicts st @ [conflict_msg day_date]\<rparr>"

text \<open>The REG shift types of a store, as \<^verbatim>\<open>generate_schedule\<close> selects them (line 130).\<close>

definition reg_shifts :: "store \<Rightarrow> ShiftType list" where
  "reg_shifts s = find_all (\<lambda>d. shift_name d = ''REG'') (shifttype s)"

text \<open>
  The attempt to fill one slot of day \<open>d\<close> (one run of the inner loop from \<open>tries = 0\<close>),
  the sequence of such attempts, and the day of every slot in the order the loops reach it:
  \<open>k\<close> slots for each index of the day loop.
\<close>

definition slot_step ::
  "Provider list \<Rightarrow> string \<Rightarrow> string option \<Rightarrow> int \<Rightarrow> locals \<Rightarrow> locals" where
  "slot_step providers site_v needed_qual d st =
     while_tries providers site_v needed_qual (date_str d) 0 st"

definition run_slots ::
  "Provider list \<Rightarrow> string \<Rightarrow> string option \<Rightarrow> int list \<Rightarrow> locals \<Rightarrow> locals" where
  "run_slots providers site_v needed_qual ds st =
     fold (slot_step providers site_v needed_qual) ds st"

definition slot_days :: "nat \<Rightarrow> int \<Rightarrow> int list \<Rightarrow> int list" where
  "slot_days k start js = concat (map (\<lambda>i. replicate k (start + i)) js)"

text \<open>
  The outcome of a sequence of slots: each slot's day with the provider it went to, if any.
  \<open>filled\<close> keeps the slots that went to a provider, \<open>unfilled\<close> the days of the others.
\<close>

fun filled :: "(int \<times> Provider option) list \<Rightarrow> (int \<times> Provider) list" where
  "filled [] = []"
| "filled ((d, None) # evs) = filled evs"
| "filled ((d, Some q) # evs) = (d, q) # filled evs"

fun unfilled :: "(int \<times> Provider option) list \<Rightarrow> int list" where
  "unfilled [] = []"
| "unfilled ((d, None) # evs) = d # unfilled evs"
| "unfilled ((d, Some q) # evs) = unfilled evs"

definition booking :: "Assignment \<Rightarrow> string \<times> string" where
  "booking a = (provider_id a, date a)"

definition initial_locals :: "store \<Rightarrow> locals" where
  "initial_locals s = \<lparr>l_conflicts = [], l_created = 0, l_p = 0, l_db = s\<rparr>"

text \<open>
  Two pieces of \<open>ord2ymd\<close>, named for the proofs: everything after the chain of divisions,
  and the computation of month and day from the day of the year.
\<close>

definition month_day :: "int \<Rightarrow> bool \<Rightarrow> int \<times> int" where
  "month_day n leapyear =
     (let month = (n + 50) div 32;
          preceding = DAYS_BEFORE_MONTH ! nat month + (if month > 2 \<and> leapyear then 1 else 0)
      in if preceding > n
         then
           let month = month - 1;
               preceding = preceding
                 - (DAYS_IN_MONTH ! nat month + (if month = 2 \<and> leapyear then 1 else 0))
           in (month, n - preceding + 1)
         else (month, n - preceding + 1))"

definition ymd_tail :: "int \<Rightarrow> int \<Rightarrow> int \<Rightarrow> int \<Rightarrow> int \<Rightarrow> int \<times> int \<times> int" where
  "ymd_tail n400 n100 n4 n1 n =
    (let year = n400 * 400 + 1;
         year = year + n100 * 100 + n4 * 4 + n1
     in if n1 = 4 \<or> n100 = 4 then (year - 1, 12, 31)
        else
          let leapyear = (n1 = 3 \<and> (n4 \<noteq> 24 \<or> n100 = 3));
              month = (n + 50) div 32;
              preceding = DAYS_BEFORE_MONTH ! nat month + (if month > 2 \<and> leapyear then 1 else 0)
          in if preceding > n
             then
               let month = month - 1;
                   preceding = preceding
                     - (DAYS_IN_MONTH ! nat month + (if month = 2 \<and> leapyear then 1 else 0))
               in (year, month, n - preceding + 1)
             else (year, month, n - preceding + 1))"

text \<open>
  A sequence of slot outcomes \<open>evs\<close> accounts for the step from \<open>st\<close> to \<open>st'\<close>: the
  documents appended to the assignment collection, the messages appended to the conflicts
  and the increase of the counter.
\<close>

definition explains ::
  "string \<Rightarrow> locals \<Rightarrow> (int \<times> Provider option) list \<Rightarrow> locals \<Rightarrow> bool" where
  "explains sv st evs st' \<longleftrightarrow>
     l_db st' = (l_db st)\<lparr>assignment := assignment (l_db st)
        @ map (\<lambda>(d, q). new_assignment q (date_str d) sv) (filled evs)\<rparr> \<and>
     l_conflicts st' = l_conflicts st @ map (\<lambda>d. conflict_msg (date_str d)) (unfilled evs) \<and>
     l_created st' = l_created st + int (length (filled evs))"

section \<open>The allocator as the specification describes it\<close>

text \<open>
  The round-robin allocator in the words of the specification (section 4.2), for comparison
  with \<open>generate_schedule\<close>. One rotation cursor \<open>p\<close> is an explicit argument: it starts at
  \<open>0\<close>, every slot receives the cursor its predecessor returned, and no day resets it.
  \<open>spec_try\<close> tries up to \<open>budget\<close> candidates, each time taking
  \<open>providers ! (p mod length providers)\<close> and incrementing \<open>p\<close>, until one is eligible
  (it passes the two tests of lines 151 and 154) or the budget is exhausted. \<open>spec_slot\<close> books the approved candidate or appends the conflict
  message, \<open>spec_days\<close> fills \<open>min providerCount shiftCount\<close> slots for each date from the
  start date to the end date, and \<open>spec_generate\<close> checks the preconditions first.
\<close>

fun spec_try ::
  "Provider list \<Rightarrow> store \<Rightarrow> string option \<Rightarrow> string \<Rightarrow> nat \<Rightarrow> nat \<Rightarrow> Provider option \<times> nat" where
  "spec_try providers s needed_qual day_date 0 p = (None, p)"
| "spec_try providers s needed_qual day_date (Suc budget) p =
     (let c = providers ! (p mod length providers)
      in if eligible s needed_qual day_date c then (Some c, p + 1)
         else spec_try providers s needed_qual day_date budget (p + 1))"

definition spec_slot ::
  "Provider list \<Rightarrow> string \<Rightarrow> string option \<Rightarrow> int \<Rightarrow>
     int \<times> string list \<times> nat \<times> store \<Rightarrow> int \<times> string list \<times> nat \<times> store" where
  "spec_slot providers site_v needed_qual d acc =
     (case acc of (createdCount, cfs, p, s) \<Rightarrow>
        (case spec_try providers s needed_qual (date_str d) (length providers) p of
           (Some q, p') \<Rightarrow>
             (createdCount + 1, cfs, p',
              s\<lparr>assignment := assignment s @ [new_assignment q (date_str d) site_v]\<rparr>)
         | (None, p') \<Rightarrow> (createdCount, cfs @ [conflict_msg (date_str d)], p', s)))"

fun spec_days ::
  "Provider list \<Rightarrow> nat \<Rightarrow> string \<Rightarrow> string option \<Rightarrow> int list \<Rightarrow>
     int \<times> string list \<times> nat \<times> store \<Rightarrow> int \<times> string list \<times> nat \<times> store" where
  "spec_days providers shiftCount site_v needed_qual [] acc = acc"
| "spec_days providers shiftCount site_v needed_qual (d # ds) acc =
     spec_days providers shiftCount site_v needed_qual ds
       ((spec_slot providers site_v needed_qual d ^^ min (length providers) shiftCount) acc)"

definition spec_generate ::
  "store \<Rightarrow> GenerateRequest \<Rightarrow> HTTPException + GenerateResponse \<times> store" where
  "spec_generate s req =
     (if provider s = [] \<or> reg_shifts s = []
      then Inl (HTTPException 400 ''Providers and REG Shift Type required'')
      else
        (case spec_days (provider s) (length (reg_shifts s)) (shift_site (hd (reg_shifts s)))
                (requires_qualification (hd (reg_shifts s)))
                [start_date req..end_date req] (0, [], 0, s) of
           (createdCount, cfs, p, s') \<Rightarrow> Inr (\<lparr>created = createdCount, conflicts = cfs\<rparr>, s')))"

definition locals_tuple :: "locals \<Rightarrow> int \<times> string list \<times> nat \<times> store" where
  "locals_tuple st = (l_created st, l_conflicts st, l_p st, l_db st)"

text \<open>
  The same allocator when no qualification is required (section 4.1 of the specification:
  ``if unset, all providers pass this check''): the only test a candidate can fail is the
  one for an existing Assignment on that date.
\<close>

fun spec_try_unqualified ::
  "Provider list \<Rightarrow> store \<Rightarrow> string \<Rightarrow> nat \<Rightarrow> nat \<Rightarrow> Provider option \<times> nat" where
  "spec_try_unqualified providers s day_date 0 p = (None, p)"
| "spec_try_unqualified providers s day_date (Suc budget) p =
     (let c = providers ! (p mod length providers)
      in if \<not> double_booked s c day_date then (Some c, p + 1)
         else spec_try_unqualified providers s day_date budget (p + 1))"

definition spec_slot_unqualified ::
  "Provider list \<Rightarrow> string \<Rightarrow> int \<Rightarrow>
     int \<times> string list \<times> nat \<times> store \<Rightarrow> int \<times> string list \<times> nat \<times> store" where
  "spec_slot_unqualified providers site_v d acc =
     (case acc of (createdCount, cfs, p, s) \<Rightarrow>
        (case spec_try_unqualified providers s (date_str d) (length providers) p of
           (Some q, p') \<Rightarrow>
             (createdCount + 1, cfs, p',
              s\<lparr>assignment := assignment s @ [new_assignment q (date_str d) site_v]\<rparr>)
         | (None, p') \<Rightarrow> (createdCount, cfs @ [conflict_msg (date_str d)], p', s)))"

fun spec_days_unqualified ::
  "Provider list \<Rightarrow> nat \<Rightarrow> string \<Rightarrow> int list \<Rightarrow>
     int \<times> string list \<times> nat \<times> store \<Rightarrow> int \<times> string list \<times> nat \<times> store" where
  "spec_days_unqualified providers shiftCount site_v [] acc = acc"
| "spec_days_unqualified providers shiftCount site_v (d # ds) acc =
     spec_days_unqualified providers shiftCount site_v ds
       ((spec_slot_unqualified providers site_v d ^^ min (length providers) shiftCount) acc)"

section \<open>Example data\<close>

definition ex_A :: Provider where
  "ex_A = \<lparr>prov_id = ''A'', prov_name = ''Ada'', call_sign = None, fte = 1, acc_target = 0,
           call_target = 0, site_preferences = [], qualifications = [''X''],
           seniority_level = 0, politics_weight = 0\<rparr>"

definition ex_B :: Provider where
  "ex_B = \<lparr>prov_id = ''B'', prov_name = ''Bob'', call_sign = None, fte = 1, acc_target = 0,
           call_target = 0, site_preferences = [], qualifications = [],
           seniority_level = 0, politics_weight = 0\<rparr>"

definition ex_reg :: ShiftType where
  "ex_reg = \<lparr>shift_id = ''r1'', shift_name = ''REG'', shift_site = ''S'', weekly = False,
             requires_qualification = None\<rparr>"

definition ex_store :: store where
  "ex_store = \<lparr>provider = [ex_A, ex_B], shifttype = [ex_reg], assignment = []\<rparr>"

definition ex_human_assignment :: Assignment where
  "ex_human_assignment =
     \<lparr>provider_id = ''A'', date = ''2024-01-01'', shift_type = ''REG'', site = ''S'',
      generated_by = ''Human'', audited_by = None\<rparr>"

definition ex_req :: GenerateRequest where
  "ex_req = \<lparr>start_date = 738886, end_date = 738887\<rparr>"

definition ex_day :: GenerateRequest where
  "ex_day = \<lparr>start_date = 738886, end_date = 738886\<rparr>"

definition ex_after :: store where
  "ex_after = ex_store\<lparr>assignment :=
      [new_assignment ex_A ''2024-01-01'' ''S'', new_assignment ex_B ''2024-01-02'' ''S'']\<rparr>"

definition ex_store_X :: store where
  "ex_store_X = ex_store\<lparr>shifttype := [ex_reg\<lparr>requires_qualification := Some ''X''\<rparr>]\<rparr>"

definition ex_after_X :: store where
  "ex_after_X = ex_store_X\<lparr>assignment :=
      [new_assignment ex_A ''2024-01-01'' ''S'', new_assignment ex_A ''2024-01-02'' ''S'']\<rparr>"

definition ex_store_empty_qual :: store where
  "ex_store_empty_qual =
     \<lparr>provider = [ex_B], shifttype = [ex_reg\<lparr>requires_qualification := Some ''''\<rparr>],
      assignment = []\<rparr>"

definition ex_store_booked :: store where
  "ex_store_booked = \<lparr>provider = [ex_A], shifttype = [ex_reg], assignment = [ex_human_assignment]\<rparr>"

definition ex_after_booked :: store where
  "ex_after_booked = ex_store_booked\<lparr>assignment :=
      [ex_human_assignment, new_assignment ex_A ''2024-01-02'' ''S'']\<rparr>"

section \<open>Store lookups\<close>

lemma find_one_None_iff: "find_one P xs = None \<longleftrightarrow> (\<forall>x\<in>set xs. \<not> P x)"
  by (auto simp: find_one_def find_None_iff)

lemma find_one_Some_iff: "(\<exists>y. find_one P xs = Some y) \<longleftrightarrow> (\<exists>x\<in>set xs. P x)"
  using find_one_None_iff [of P xs] by (cases "find_one P xs") auto

lemma find_all_Nil_iff: "find_all P xs = [] \<longleftrightarrow> (\<forall>x\<in>set xs. \<not> P x)"
  by (simp add: find_all_def filter_empty_conv)

lemma py_range_nonpos: "n \<le> 0 \<Longrightarrow> py_range n = []"
  by (simp add: py_range_def)

section \<open>Configuration error and empty range\<close>

text \<open>
  C4. In a store with no Provider, or with no ShiftType named REG, \<open>generate_schedule\<close>
  raises the configuration error (HTTP 400); it returns no response, hence no created
  count and no conflicts, and the store after the call is the store before it.
\<close>

theorem generate_configuration_error:
  assumes "provider s = [] \<or> \<not> (\<exists>t\<in>set (shifttype s). shift_name t = ''REG'')"
  shows "generate_schedule (Some s) req =
           (Inl (HTTPException 400 ''Providers and REG Shift Type required''), Some s)"
proof -
  from assms have "provider s = [] \<or> find_all (\<lambda>d. shift_name d = ''REG'') (shifttype s) = []"
    by (auto simp: find_all_Nil_iff)
  then show ?thesis
    by (auto simp: generate_schedule_def Let_def)
qed

theorem generate_configuration_error_witness:
  "generate_schedule (Some (ex_store\<lparr>provider := []\<rparr>)) \<lparr>start_date = 738886, end_date = 738887\<rparr> =
     (Inl (HTTPException 400 ''Providers and REG Shift Type required''),
      Some (ex_store\<lparr>provider := []\<rparr>))"
proof -
  have h: "provider (ex_store\<lparr>provider := []\<rparr>) = [] \<or>
      \<not> (\<exists>t\<in>set (shifttype (ex_store\<lparr>provider := []\<rparr>)). shift_name t = ''REG'')"
    by simp
  show ?thesis by (rule generate_configuration_error [OF h])
qed

text \<open>
  C10. With at least one provider and one REG shift type, a request whose end date lies
  strictly before its start date returns \<open>created = 0\<close> and no conflicts, and the store is
  unchanged: \<open>range(days)\<close> is empty.
\<close>

theorem generate_reversed_range:
  assumes "provider s \<noteq> []"
    and "\<exists>t\<in>set (shifttype s). shift_name t = ''REG''"
    and "end_date req < start_date req"
  shows "generate_schedule (Some s) req = (Inr \<lparr>created = 0, conflicts = []\<rparr>, Some s)"
proof -
  from assms(2) have "find_all (\<lambda>d. shift_name d = ''REG'') (shifttype s) \<noteq> []"
    by (auto simp: find_all_Nil_iff)
  moreover from assms(3) have "py_range (end_date req - start_date req + 1) = []"
    by (simp add: py_range_nonpos)
  ultimately show ?thesis
    using assms(1) by (simp add: generate_schedule_def Let_def)
qed

theorem generate_reversed_range_witness:
  "generate_schedule (Some ex_store) \<lparr>start_date = 738887, end_date = 738886\<rparr> =
     (Inr \<lparr>created = 0, conflicts = []\<rparr>, Some ex_store)"
proof -
  have h1: "provider ex_store \<noteq> []"
    by (simp add: ex_store_def)
  have h2: "\<exists>t\<in>set (shifttype ex_store). shift_name t = ''REG''"
    by (simp add: ex_store_def ex_reg_def)
  have h3: "end_date \<lparr>start_date = 738887, end_date = 738886\<rparr>
      < start_date \<lparr>start_date = 738887, end_date = 738886\<rparr>"
    by simp
  show ?thesis by (rule generate_reversed_range [OF h1 h2 h3])
qed

section \<open>Creation endpoints\<close>

text \<open>
  C9 as stated fails: the application has no endpoint that creates an Assignment. A POST
  of an Assignment whose identifier is new is answered with 405 and nothing is written.
\<close>

theorem post_assignment_not_persisted:
  "post (Some \<lparr>provider = [], shifttype = [], assignment = []\<rparr>) ''/assignments''
       (AssignmentBody ex_human_assignment) =
     (Inl (HTTPException 405 ''Method Not Allowed''),
      Some \<lparr>provider = [], shifttype = [], assignment = []\<rparr>)"
  by (simp add: post_def get_routes_def)

text \<open>
  C9, amended. At the Provider and ShiftType creation endpoints, a request whose identifier
  is already in the collection is rejected with the duplicate error (HTTP 400) and the
  store is unchanged; otherwise the submitted record is appended to its collection
  unchanged and returned.
\<close>

theorem create_rejects_duplicates:
  "((\<exists>d\<in>set (provider s). prov_id d = prov_id prov) \<longrightarrow>
      create_provider (Some s) prov =
        (Inl (HTTPException 400 ''Provider already exists''), Some s)) \<and>
   (\<not> (\<exists>d\<in>set (provider s). prov_id d = prov_id prov) \<longrightarrow>
      create_provider (Some s) prov =
        (Inr prov, Some (s\<lparr>provider := provider s @ [prov]\<rparr>))) \<and>
   ((\<exists>d\<in>set (shifttype s). shift_id d = shift_id shift) \<longrightarrow>
      create_shift_type (Some s) shift =
        (Inl (HTTPException 400 ''ShiftType already exists''), Some s)) \<and>
   (\<not> (\<exists>d\<in>set (shifttype s). shift_id d = shift_id shift) \<longrightarrow>
      create_shift_type (Some s) shift =
        (Inr shift, Some (s\<lparr>shifttype := shifttype s @ [shift]\<rparr>)))"
proof -
  have p1: "create_provider (Some s) prov =
        (Inl (HTTPException 400 ''Provider already exists''), Some s)"
    if "\<exists>d\<in>set (provider s). prov_id d = prov_id prov"
  proof -
    from that obtain e where "find_one (\<lambda>d. prov_id d = prov_id prov) (provider s) = Some e"
      using find_one_Some_iff [of "\<lambda>d. prov_id d = prov_id prov" "provider s"] by blast
    then show ?thesis by (simp add: create_provider_def)
  qed
  have p2: "create_provider (Some s) prov = (Inr prov, Some (s\<lparr>provider := provider s @ [prov]\<rparr>))"
    if "\<not> (\<exists>d\<in>set (provider s). prov_id d = prov_id prov)"
  proof -
    from that have "find_one (\<lambda>d. prov_id d = prov_id prov) (provider s) = None"
      by (simp add: find_one_None_iff)
    then show ?thesis by (simp add: create_provider_def create_document_def)
  qed
  have s1: "create_shift_type (Some s) shift =
        (Inl (HTTPException 400 ''ShiftType already exists''), Some s)"
    if "\<exists>d\<in>set (shifttype s). shift_id d = shift_id shift"
  proof -
    from that obtain e where "find_one (\<lambda>d. shift_id d = shift_id shift) (shifttype s) = Some e"
      using find_one_Some_iff [of "\<lambda>d. shift_id d = shift_id shift" "shifttype s"] by blast
    then show ?thesis by (simp add: create_shift_type_def)
  qed
  have s2: "create_shift_type (Some s) shift =
        (Inr shift, Some (s\<lparr>shifttype := shifttype s @ [shift]\<rparr>))"
    if "\<not> (\<exists>d\<in>set (shifttype s). shift_id d = shift_id shift)"
  proof -
    from that have "find_one (\<lambda>d. shift_id d = shift_id shift) (shifttype s) = None"
      by (simp add: find_one_None_iff)
    then show ?thesis by (simp add: create_shift_type_def create_document_def)
  qed
  from p1 p2 s1 s2 show ?thesis by blast
qed

theorem create_rejects_duplicates_witness:
  "create_provider (Some ex_store) ex_A =
     (Inl (HTTPException 400 ''Provider already exists''), Some ex_store) \<and>
   create_provider (Some (ex_store\<lparr>provider := [ex_B]\<rparr>)) ex_A =
     (Inr ex_A, Some (ex_store\<lparr>provider := [ex_B, ex_A]\<rparr>)) \<and>
   create_shift_type (Some ex_store) ex_reg =
     (Inl (HTTPException 400 ''ShiftType already exists''), Some ex_store) \<and>
   create_shift_type (Some (ex_store\<lparr>shifttype := []\<rparr>)) ex_reg =
     (Inr ex_reg, Some ex_store)"
proof -
  have h1: "\<exists>d\<in>set (provider ex_store). prov_id d = prov_id ex_A"
    by (simp add: ex_store_def)
  have h2: "\<not> (\<exists>d\<in>set (provider (ex_store\<lparr>provider := [ex_B]\<rparr>)). prov_id d = prov_id ex_A)"
    by (simp add: ex_A_def ex_B_def)
  have h3: "\<exists>d\<in>set (shifttype ex_store). shift_id d = shift_id ex_reg"
    by (simp add: ex_store_def)
  have h4: "\<not> (\<exists>d\<in>set (shifttype (ex_store\<lparr>shifttype := []\<rparr>)). shift_id d = shift_id ex_reg)"
    by simp
  note a = create_rejects_duplicates [of ex_store ex_A ex_reg]
  note b = create_rejects_duplicates [of "ex_store\<lparr>provider := [ex_B]\<rparr>" ex_A ex_reg]
  note c = create_rejects_duplicates [of "ex_store\<lparr>shifttype := []\<rparr>" ex_A ex_reg]
  from a h1 have r1: "create_provider (Some ex_store) ex_A =
     (Inl (HTTPException 400 ''Provider already exists''), Some ex_store)" by blast
  from b h2 have r2: "create_provider (Some (ex_store\<lparr>provider := [ex_B]\<rparr>)) ex_A =
     (Inr ex_A, Some (ex_store\<lparr>provider := [ex_B, ex_A]\<rparr>))" by simp
  from a h3 have r3: "create_shift_type (Some ex_store) ex_reg =
     (Inl (HTTPException 400 ''ShiftType already exists''), Some ex_store)" by blast
  from c h4 have r4: "create_shift_type (Some (ex_store\<lparr>shifttype := []\<rparr>)) ex_reg =
     (Inr ex_reg, Some ex_store)" by (simp add: ex_store_def)
  from r1 r2 r3 r4 show ?thesis by blast
qed

section \<open>The inner loop\<close>

text \<open>
  One run of the inner loop with \<open>tries\<close> draws already made either stops at the first
  eligible candidate, \<open>j\<close> draws further on, or makes all remaining draws and gives up.
\<close>

lemma while_tries_cases:
  "(\<exists>j < length ps - tries.
      (\<forall>i<j. \<not> eligible (l_db st) nq d (candidate ps (l_p st + i))) \<and>
      eligible (l_db st) nq d (candidate ps (l_p st + j)) \<and>
      while_tries ps sv nq d tries st = assign (candidate ps (l_p st + j)) d sv (Suc j) st)
   \<or> ((\<forall>i < length ps - tries. \<not> eligible (l_db st) nq d (candidate ps (l_p st + i))) \<and>
      while_tries ps sv nq d tries st = give_up d (length ps - tries) st)"
proof (induction ps sv nq d tries st rule: while_tries.induct)
  case (1 ps sv nq d tries st)
  show ?case
  proof (cases "tries < length ps")
    case False
    then show ?thesis by (subst while_tries.simps) (simp add: give_up_def)
  next
    case True
    let ?prov = "candidate ps (l_p st)"
    let ?st1 = "st\<lparr>l_p := l_p st + 1\<rparr>"
    show ?thesis
    proof (cases "eligible (l_db st) nq d ?prov")
      case el: True
      from True el have "while_tries ps sv nq d tries st = assign ?prov d sv (Suc 0) st"
        by (subst while_tries.simps)
           (simp add: eligible_def candidate_def assign_def create_document_def Let_def)
      with True el show ?thesis
        by (intro disjI1 exI [of _ 0]) simp
    next
      case nel: False
      from True nel have step: "while_tries ps sv nq d tries st = while_tries ps sv nq d (tries + 1) ?st1"
        by (subst while_tries.simps) (auto simp: eligible_def candidate_def Let_def)
      have ih: "(\<exists>j < length ps - (tries + 1).
          (\<forall>i<j. \<not> eligible (l_db ?st1) nq d (candidate ps (l_p ?st1 + i))) \<and>
          eligible (l_db ?st1) nq d (candidate ps (l_p ?st1 + j)) \<and>
          while_tries ps sv nq d (tries + 1) ?st1 = assign (candidate ps (l_p ?st1 + j)) d sv (Suc j) ?st1)
        \<or> ((\<forall>i < length ps - (tries + 1). \<not> eligible (l_db ?st1) nq d (candidate ps (l_p ?st1 + i))) \<and>
          while_tries ps sv nq d (tries + 1) ?st1 = give_up d (length ps - (tries + 1)) ?st1)"
      proof (cases "double_booked (l_db ?st1) (ps ! (l_p st mod length ps)) d")
        case True
        from "1.IH"(1) [OF \<open>tries < length ps\<close> refl refl refl True] show ?thesis .
      next
        case nb: False
        with nel have lq: "lacks_qualification nq (ps ! (l_p st mod length ps))"
          by (simp add: eligible_def candidate_def)
        from "1.IH"(2) [OF \<open>tries < length ps\<close> refl refl refl nb lq] show ?thesis .
      qed
      from ih show ?thesis
      proof
        assume "\<exists>j < length ps - (tries + 1).
          (\<forall>i<j. \<not> eligible (l_db ?st1) nq d (candidate ps (l_p ?st1 + i))) \<and>
          eligible (l_db ?st1) nq d (candidate ps (l_p ?st1 + j)) \<and>
          while_tries ps sv nq d (tries + 1) ?st1 = assign (candidate ps (l_p ?st1 + j)) d sv (Suc j) ?st1"
        then obtain j where j: "j < length ps - (tries + 1)"
          and a: "\<forall>i<j. \<not> eligible (l_db st) nq d (candidate ps (l_p st + Suc i))"
          and b: "eligible (l_db st) nq d (candidate ps (l_p st + Suc j))"
          and c: "while_tries ps sv nq d (tries + 1) ?st1 = assign (candidate ps (l_p st + Suc j)) d sv (Suc j) ?st1"
          by auto
        have a': "\<forall>i<Suc j. \<not> eligible (l_db st) nq d (candidate ps (l_p st + i))"
        proof (intro allI impI)
          fix i assume "i < Suc j"
          then show "\<not> eligible (l_db st) nq d (candidate ps (l_p st + i))"
            using a nel by (cases i) auto
        qed
        have "while_tries ps sv nq d tries st = assign (candidate ps (l_p st + Suc j)) d sv (Suc (Suc j)) st"
          using step c by (simp add: assign_def)
        with j a' b show ?thesis
          by (intro disjI1 exI [of _ "Suc j"]) auto
      next
        assume "(\<forall>i < length ps - (tries + 1). \<not> eligible (l_db ?st1) nq d (candidate ps (l_p ?st1 + i))) \<and>
          while_tries ps sv nq d (tries + 1) ?st1 = give_up d (length ps - (tries + 1)) ?st1"
        then have a: "\<forall>i < length ps - (tries + 1). \<not> eligible (l_db st) nq d (candidate ps (l_p st + Suc i))"
          and c: "while_tries ps sv nq d (tries + 1) ?st1 = give_up d (length ps - (tries + 1)) ?st1"
          by auto
        have a': "\<forall>i < length ps - tries. \<not> eligible (l_db st) nq d (candidate ps (l_p st + i))"
        proof (intro allI impI)
          fix i assume "i < length ps - tries"
          then show "\<not> eligible (l_db st) nq d (candidate ps (l_p st + i))"
            using a nel by (cases i) auto
        qed
        have "while_tries ps sv nq d tries st = give_up d (length ps - tries) st"
          using step c True by (simp add: give_up_def)
        with a' show ?thesis by blast
      qed
    qed
  qed
qed


section \<open>The loops as a sequence of slots\<close>

lemma fold_const_funpow: "fold (\<lambda>_. f) xs = f ^^ length xs"
  by (induction xs) (simp_all add: funpow_swap1 fun_eq_iff)

lemma py_range_length: "length (py_range n) = nat n"
  by (simp add: py_range_def)

lemma day_body_replicate:
  "day_body ps shifts sv nq start i st =
     run_slots ps sv nq (replicate (min (length ps) (length shifts)) (start + i)) st"
proof -
  have "nat (min (int (length ps)) (int (length shifts))) = min (length ps) (length shifts)"
    by simp
  moreover have "slot_step ps sv nq (start + i) = while_tries ps sv nq (date_str (start + i)) 0"
    by (rule ext) (simp add: slot_step_def)
  ultimately show ?thesis
    by (simp add: day_body_def run_slots_def fold_const_funpow py_range_length
        fold_replicate Let_def)
qed

lemma run_slots_append:
  "run_slots ps sv nq (ds @ es) st = run_slots ps sv nq es (run_slots ps sv nq ds st)"
  by (simp add: run_slots_def)

lemma fold_day_body:
  "fold (day_body ps shifts sv nq start) js st =
     run_slots ps sv nq (slot_days (min (length ps) (length shifts)) start js) st"
proof (induction js arbitrary: st)
  case Nil
  show ?case by (simp add: slot_days_def run_slots_def)
next
  case (Cons j js)
  let ?k = "min (length ps) (length shifts)"
  have "fold (day_body ps shifts sv nq start) (j # js) st =
      fold (day_body ps shifts sv nq start) js (day_body ps shifts sv nq start j st)"
    by simp
  also have "\<dots> = run_slots ps sv nq (slot_days ?k start js) (day_body ps shifts sv nq start j st)"
    by (rule Cons.IH)
  also have "\<dots> = run_slots ps sv nq (slot_days ?k start js)
      (run_slots ps sv nq (replicate ?k (start + j)) st)"
    by (subst day_body_replicate) (rule refl)
  also have "\<dots> = run_slots ps sv nq (replicate ?k (start + j) @ slot_days ?k start js) st"
    by (rule run_slots_append [symmetric])
  also have "replicate ?k (start + j) @ slot_days ?k start js = slot_days ?k start (j # js)"
    by (simp add: slot_days_def)
  finally show ?case .
qed

lemma generate_schedule_run:
  assumes "provider s \<noteq> []" and "reg_shifts s \<noteq> []"
  shows "generate_schedule (Some s) req =
    (Inr \<lparr>created = l_created (run_slots (provider s) (shift_site (hd (reg_shifts s)))
              (requires_qualification (hd (reg_shifts s)))
              (slot_days (min (length (provider s)) (length (reg_shifts s))) (start_date req)
                 (py_range (end_date req - start_date req + 1)))
              (initial_locals s)),
          conflicts = l_conflicts (run_slots (provider s) (shift_site (hd (reg_shifts s)))
              (requires_qualification (hd (reg_shifts s)))
              (slot_days (min (length (provider s)) (length (reg_shifts s))) (start_date req)
                 (py_range (end_date req - start_date req + 1)))
              (initial_locals s))\<rparr>,
     Some (l_db (run_slots (provider s) (shift_site (hd (reg_shifts s)))
              (requires_qualification (hd (reg_shifts s)))
              (slot_days (min (length (provider s)) (length (reg_shifts s))) (start_date req)
                 (py_range (end_date req - start_date req + 1)))
              (initial_locals s))))"
  using assms
  by (simp add: generate_schedule_def Let_def fold_day_body reg_shifts_def initial_locals_def)

lemma upto_as_range: "map (\<lambda>i. a + i) (py_range (b - a + 1)) = [a..b]"
proof (rule nth_equalityI)
  show "length (map (\<lambda>i. a + i) (py_range (b - a + 1))) = length [a..b]"
    by (simp add: py_range_length)
next
  fix i assume "i < length (map (\<lambda>i. a + i) (py_range (b - a + 1)))"
  then have "i < nat (b - a + 1)" by (simp add: py_range_length)
  then show "map (\<lambda>i. a + i) (py_range (b - a + 1)) ! i = [a..b] ! i"
    by (simp add: py_range_def nth_upto)
qed

lemma slot_days_one: "slot_days (Suc 0) a (py_range (b - a + 1)) = [a..b]"
proof -
  have "slot_days (Suc 0) a js = map (\<lambda>i. a + i) js" for js
    by (induction js) (simp_all add: slot_days_def)
  then show ?thesis by (simp add: upto_as_range)
qed


lemma double_booked_iff:
  "double_booked s q d \<longleftrightarrow> (prov_id q, d) \<in> booking ` set (assignment s)"
proof -
  have "double_booked s q d \<longleftrightarrow> (\<exists>a\<in>set (assignment s). provider_id a = prov_id q \<and> date a = d)"
    unfolding double_booked_def
    using find_one_None_iff [of "\<lambda>a. provider_id a = prov_id q \<and> date a = d" "assignment s"]
    by auto
  also have "\<dots> \<longleftrightarrow> (prov_id q, d) \<in> booking ` set (assignment s)"
    by (force simp: booking_def image_iff)
  finally show ?thesis .
qed

lemma candidate_in_set: "ps \<noteq> [] \<Longrightarrow> candidate ps k \<in> set ps"
  by (simp add: candidate_def)

lemma candidate_cover:
  assumes "ps \<noteq> []" and "q \<in> set ps"
  shows "\<exists>i<length ps. candidate ps (p + i) = q"
proof -
  from assms(2) obtain m where m: "m < length ps" "ps ! m = q"
    by (auto simp: in_set_conv_nth)
  let ?n = "length ps"
  let ?i = "(m + (?n - p mod ?n)) mod ?n"
  from assms(1) have n: "0 < ?n" by simp
  have "(p + ?i) mod ?n = (p mod ?n + (m + (?n - p mod ?n))) mod ?n"
    by (metis mod_add_eq mod_mod_trivial)
  also have "p mod ?n + (m + (?n - p mod ?n)) = m + ?n"
  proof -
    from n have "p mod ?n < ?n" by simp
    then show ?thesis by arith
  qed
  also have "(m + ?n) mod ?n = m"
    using m(1) by simp
  finally have "candidate ps (p + ?i) = q"
    using m(2) by (simp add: candidate_def)
  moreover have "?i < ?n" using n by simp
  ultimately show ?thesis by blast
qed

lemma all_candidates_iff:
  assumes "ps \<noteq> []"
  shows "(\<forall>i<length ps. P (candidate ps (p + i))) \<longleftrightarrow> (\<forall>q\<in>set ps. P q)"
  using candidate_cover [OF assms, of _ p] candidate_in_set [OF assms] by metis

lemma slot_step_cases:
  assumes "ps \<noteq> []"
  shows "(\<exists>j<length ps.
      (\<forall>i<j. \<not> eligible (l_db st) nq (date_str d) (candidate ps (l_p st + i))) \<and>
      eligible (l_db st) nq (date_str d) (candidate ps (l_p st + j)) \<and>
      slot_step ps sv nq d st = assign (candidate ps (l_p st + j)) (date_str d) sv (Suc j) st)
   \<or> ((\<forall>q\<in>set ps. \<not> eligible (l_db st) nq (date_str d) q) \<and>
      slot_step ps sv nq d st = give_up (date_str d) (length ps) st)"
  using while_tries_cases [of ps 0 st nq "date_str d" sv]
    all_candidates_iff [OF assms, of "\<lambda>q. \<not> eligible (l_db st) nq (date_str d) q" "l_p st"]
  by (simp add: slot_step_def)

text \<open>The two outcomes, without the cursor detail.\<close>

lemma slot_step_outcome:
  assumes "ps \<noteq> []"
  obtains (filled) q k where "q \<in> set ps" "eligible (l_db st) nq (date_str d) q"
      "slot_step ps sv nq d st = assign q (date_str d) sv k st"
  | (unfilled) "\<forall>q\<in>set ps. \<not> eligible (l_db st) nq (date_str d) q"
      "slot_step ps sv nq d st = give_up (date_str d) (length ps) st"
  using slot_step_cases [OF assms, of st nq d sv] candidate_in_set [OF assms]
  by blast

lemma run_slots_Cons:
  "run_slots ps sv nq (d # ds) st = run_slots ps sv nq ds (slot_step ps sv nq d st)"
  by (simp add: run_slots_def)

lemma run_slots_Nil: "run_slots ps sv nq [] st = st"
  by (simp add: run_slots_def)

lemma run_slots_events:
  assumes "ps \<noteq> []"
  shows "\<exists>evs. map fst evs = ds \<and> explains sv st evs (run_slots ps sv nq ds st) \<and>
     (\<forall>(d, q)\<in>set (filled evs). q \<in> set ps \<and> \<not> lacks_qualification nq q)"
proof (induction ds arbitrary: st)
  case Nil
  have "explains sv st [] st" by (simp add: explains_def)
  then show ?case by (intro exI [of _ "[]"]) (simp add: run_slots_Nil)
next
  case (Cons d ds)
  let ?st1 = "slot_step ps sv nq d st"
  from Cons.IH [of ?st1] obtain evs where evs: "map fst evs = ds"
    "explains sv ?st1 evs (run_slots ps sv nq ds ?st1)"
    "\<forall>(d, q)\<in>set (filled evs). q \<in> set ps \<and> \<not> lacks_qualification nq q"
    by blast
  show ?case
  proof (rule slot_step_outcome [OF assms, of st nq d sv], goal_cases)
    case filled: (1 q k)
    from filled(3) evs(2) have "explains sv st ((d, Some q) # evs) (run_slots ps sv nq ds ?st1)"
      by (simp add: explains_def assign_def)
    moreover from filled(1,2) evs(3)
    have "\<forall>(d, q)\<in>set (filled ((d, Some q) # evs)). q \<in> set ps \<and> \<not> lacks_qualification nq q"
      by (simp add: eligible_def)
    ultimately show ?thesis
      using evs(1) by (intro exI [of _ "(d, Some q) # evs"]) (simp add: run_slots_Cons)
  next
    case unfilled: 2
    from unfilled(2) evs(2) have "explains sv st ((d, None) # evs) (run_slots ps sv nq ds ?st1)"
      by (simp add: explains_def give_up_def)
    moreover from evs(3)
    have "\<forall>(d, q)\<in>set (filled ((d, None) # evs)). q \<in> set ps \<and> \<not> lacks_qualification nq q"
      by simp
    ultimately show ?thesis
      using evs(1) by (intro exI [of _ "(d, None) # evs"]) (simp add: run_slots_Cons)
  qed
qed

lemma filled_unfilled_length: "length (filled evs) + length (unfilled evs) = length evs"
  by (induction evs rule: filled.induct) simp_all


lemma assign_db:
  "assignment (l_db (assign q dd sv k st)) = assignment (l_db st) @ [new_assignment q dd sv]"
  by (simp add: assign_def)

lemma give_up_db: "l_db (give_up dd k st) = l_db st"
  by (simp add: give_up_def)

lemma booking_new_assignment: "booking (new_assignment q dd sv) = (prov_id q, dd)"
  by (simp add: booking_def new_assignment_def)

lemma run_slots_bookings:
  assumes "ps \<noteq> []"
  shows "\<exists>news. assignment (l_db (run_slots ps sv nq ds st)) = assignment (l_db st) @ news \<and>
     distinct (map booking news) \<and>
     booking ` set news \<inter> booking ` set (assignment (l_db st)) = {}"
proof (induction ds arbitrary: st)
  case Nil
  show ?case by (simp add: run_slots_Nil)
next
  case (Cons d ds)
  let ?st1 = "slot_step ps sv nq d st"
  from Cons.IH [of ?st1] obtain news where news:
    "assignment (l_db (run_slots ps sv nq ds ?st1)) = assignment (l_db ?st1) @ news"
    "distinct (map booking news)"
    "booking ` set news \<inter> booking ` set (assignment (l_db ?st1)) = {}"
    by blast
  show ?case
  proof (rule slot_step_outcome [OF assms, of st nq d sv], goal_cases)
    case filled: (1 q k)
    let ?a = "new_assignment q (date_str d) sv"
    from filled(3) have db1: "assignment (l_db ?st1) = assignment (l_db st) @ [?a]"
      by (simp add: assign_db)
    from filled(2) have fresh: "booking ?a \<notin> booking ` set (assignment (l_db st))"
      by (simp add: eligible_def double_booked_iff booking_new_assignment)
    from news(3) db1 have disj: "booking ?a \<notin> booking ` set news"
      "booking ` set news \<inter> booking ` set (assignment (l_db st)) = {}"
      by auto
    have "assignment (l_db (run_slots ps sv nq (d # ds) st)) = assignment (l_db st) @ (?a # news)"
      using news(1) db1 by (simp add: run_slots_Cons)
    moreover have "distinct (map booking (?a # news))"
      using news(2) disj(1) by simp
    moreover have "booking ` set (?a # news) \<inter> booking ` set (assignment (l_db st)) = {}"
      using disj(2) fresh by simp
    ultimately show ?thesis by blast
  next
    case unfilled: 2
    from unfilled(2) have "l_db ?st1 = l_db st" by (simp add: give_up_db)
    with news show ?thesis by (auto simp: run_slots_Cons)
  qed
qed

lemma generate_schedule_Inr:
  assumes "generate_schedule (Some s) req = (Inr r, db')"
  shows "provider s \<noteq> []" and "reg_shifts s \<noteq> []"
  using assms by (auto simp: generate_schedule_def reg_shifts_def Let_def split: if_splits)


section \<open>Dates and their strings\<close>

lemma month_day_props:
  assumes "0 \<le> r" and "r \<le> 364" and "month_day r leap = (m, d)"
  shows "1 \<le> m \<and> m \<le> 12 \<and> 1 \<le> d \<and> d \<le> 31 \<and>
     DAYS_BEFORE_MONTH ! nat m + (if m > 2 \<and> leap then 1 else 0) + d = r + 1"
proof -
  define k where "k = (r + 50) div 32"
  from assms(1,2) have "1 \<le> k" "k \<le> 12" by (simp_all add: k_def)
  then consider "k = 1" | "k = 2" | "k = 3" | "k = 4" | "k = 5" | "k = 6" | "k = 7" | "k = 8"
    | "k = 9" | "k = 10" | "k = 11" | "k = 12"
    by atomize_elim arith
  then show ?thesis
    using assms unfolding month_day_def Let_def
    by cases (auto simp: DAYS_BEFORE_MONTH_def DAYS_IN_MONTH_def k_def split: if_splits)
qed


lemma ord2ymd_tail:
  "ord2ymd n0 = ymd_tail ((n0 - 1) div 146097) ((n0 - 1) mod 146097 div 36524)
     ((n0 - 1) mod 146097 mod 36524 div 1461) ((n0 - 1) mod 146097 mod 36524 mod 1461 div 365)
     ((n0 - 1) mod 146097 mod 36524 mod 1461 mod 365)"
  by (simp only: ord2ymd_def ymd_tail_def Let_def)

lemma ymd_tail_eq:
  "ymd_tail a b c e r =
     (if e = 4 \<or> b = 4 then (400 * a + 100 * b + 4 * c + e, 12, 31)
      else (400 * a + 100 * b + 4 * c + e + 1, month_day r (e = 3 \<and> (c \<noteq> 24 \<or> b = 3))))"
  by (simp add: ymd_tail_def month_day_def Let_def)

lemma div_split_const:
  fixes x k q :: int
  assumes "0 < k" "0 \<le> x" "x < k"
  shows "(x + k * q) div k = q" and "(x + k * q) mod k = x"
  using assms by simp_all

lemma mod_zero_below:
  fixes x k :: int
  assumes "0 < x" "x \<le> k"
  shows "x mod k = 0 \<longleftrightarrow> x = k"
proof (cases "x = k")
  case True
  then show ?thesis by simp
next
  case False
  with assms have "x mod k = x" by simp
  with assms False show ?thesis by simp
qed

lemma year_arith:
  fixes a b c e :: int
  assumes "0 \<le> b" "b \<le> 3" "0 \<le> c" "c \<le> 24" "0 \<le> e" "e \<le> 3"
  shows "days_before_year (400 * a + 100 * b + 4 * c + e + 1) =
           146097 * a + 36524 * b + 1461 * c + 365 * e"
    and "is_leap (400 * a + 100 * b + 4 * c + e + 1) \<longleftrightarrow> e = 3 \<and> (c \<noteq> 24 \<or> b = 3)"
proof -
  let ?y = "400 * a + 100 * b + 4 * c + e"
  have y4: "?y = e + 4 * (100 * a + 25 * b + c)" by simp
  have y100: "?y = (4 * c + e) + 100 * (4 * a + b)" by simp
  have y400: "?y = (100 * b + 4 * c + e) + 400 * a" by simp
  have d4: "?y div 4 = 100 * a + 25 * b + c"
    by (subst y4, rule div_split_const) (use assms in simp_all)
  have d100: "?y div 100 = 4 * a + b"
    by (subst y100, rule div_split_const) (use assms in simp_all)
  have d400: "?y div 400 = a"
    by (subst y400, rule div_split_const) (use assms in simp_all)
  show "days_before_year (?y + 1) = 146097 * a + 36524 * b + 1461 * c + 365 * e"
    unfolding days_before_year_def Let_def add_diff_cancel_right' d4 d100 d400 by simp
  have z4: "?y + 1 = (e + 1) + 4 * (100 * a + 25 * b + c)" by simp
  have z100: "?y + 1 = (4 * c + e + 1) + 100 * (4 * a + b)" by simp
  have z400: "?y + 1 = (100 * b + 4 * c + e + 1) + 400 * a" by simp
  have m4: "(?y + 1) mod 4 = (e + 1) mod 4"
    by (subst z4) (rule mod_mult_self2)
  have m100: "(?y + 1) mod 100 = (4 * c + e + 1) mod 100"
    by (subst z100) (rule mod_mult_self2)
  have m400: "(?y + 1) mod 400 = (100 * b + 4 * c + e + 1) mod 400"
    by (subst z400) (rule mod_mult_self2)
  have l4: "(e + 1) mod 4 = 0 \<longleftrightarrow> e = 3"
    using mod_zero_below [of "e + 1" 4] assms by simp
  have "4 * c + e + 1 = 100 \<longleftrightarrow> c = 24 \<and> e = 3"
    using assms by arith
  moreover have "(4 * c + e + 1) mod 100 = 0 \<longleftrightarrow> 4 * c + e + 1 = 100"
    by (rule mod_zero_below) (use assms in simp_all)
  ultimately have l100: "(4 * c + e + 1) mod 100 = 0 \<longleftrightarrow> c = 24 \<and> e = 3"
    by simp
  have "100 * b + 4 * c + e + 1 = 400 \<longleftrightarrow> b = 3 \<and> c = 24 \<and> e = 3"
    using assms by arith
  moreover have "(100 * b + 4 * c + e + 1) mod 400 = 0 \<longleftrightarrow> 100 * b + 4 * c + e + 1 = 400"
    by (rule mod_zero_below) (use assms in simp_all)
  ultimately have l400: "(100 * b + 4 * c + e + 1) mod 400 = 0 \<longleftrightarrow> b = 3 \<and> c = 24 \<and> e = 3"
    by simp
  show "is_leap (?y + 1) \<longleftrightarrow> e = 3 \<and> (c \<noteq> 24 \<or> b = 3)"
    unfolding is_leap_def m4 m100 m400 l4 l100 l400 by blast
qed


lemma ord2ymd_props:
  assumes "1 \<le> n"
  shows "\<exists>y m d. ord2ymd n = (y, m, d) \<and> 1 \<le> y \<and> 1 \<le> m \<and> m \<le> 12 \<and> 1 \<le> d \<and> d \<le> 31 \<and>
           ymd2ord (y, m, d) = n \<and> (n \<le> 3652059 \<longrightarrow> y \<le> 9999)"
proof -
  define a where "a = (n - 1) div 146097"
  define r1 where "r1 = (n - 1) mod 146097"
  define b where "b = r1 div 36524"
  define r2 where "r2 = r1 mod 36524"
  define c where "c = r2 div 1461"
  define r3 where "r3 = r2 mod 1461"
  define e where "e = r3 div 365"
  define r4 where "r4 = r3 mod 365"
  have n: "n - 1 = 146097 * a + r1" and r1: "0 \<le> r1" "r1 < 146097"
    by (simp_all add: a_def r1_def)
  have r1': "r1 = 36524 * b + r2" and r2: "0 \<le> r2" "r2 < 36524"
    by (simp_all add: b_def r2_def)
  have r2': "r2 = 1461 * c + r3" and r3: "0 \<le> r3" "r3 < 1461"
    by (simp_all add: c_def r3_def)
  have r3': "r3 = 365 * e + r4" and r4: "0 \<le> r4" "r4 < 365"
    by (simp_all add: e_def r4_def)
  from assms n r1 have a0: "0 \<le> a" by linarith
  from r1' r1 r2 have b0: "0 \<le> b" "b \<le> 4" by linarith+
  from r2' r2 r3 have c0: "0 \<le> c" "c \<le> 24" by linarith+
  from r3' r3 r4 have e0: "0 \<le> e" "e \<le> 4" by linarith+
  have unfold: "ord2ymd n = ymd_tail a b c e r4"
    unfolding ord2ymd_tail a_def r1_def b_def r2_def c_def r3_def e_def r4_def ..
  show ?thesis
  proof (cases "b = 4")
    case True
    with r1' r1 r2 have "r2 = 0" by linarith
    with r2' r3 c0 have "c = 0" "r3 = 0" by linarith+
    with r3' r4 e0 have "e = 0" "r4 = 0" by linarith+
    from True \<open>c = 0\<close> \<open>e = 0\<close> have o: "ord2ymd n = (400 * a + 400, 12, 31)"
      by (simp add: unfold ymd_tail_eq)
    have y: "400 * a + 400 = 400 * a + 100 * 3 + 4 * 24 + 3 + 1" by simp
    have "days_before_year (400 * a + 400) = 146097 * a + 36524 * 3 + 1461 * 24 + 365 * 3"
      by (subst y, rule year_arith) simp_all
    moreover have "is_leap (400 * a + 400)"
      by (subst y, subst year_arith) simp_all
    ultimately have "ymd2ord (400 * a + 400, 12, 31) = 146097 * a + 146097"
      by (simp add: ymd2ord_def days_before_month_def DAYS_BEFORE_MONTH_def)
    moreover from n r1' True \<open>r2 = 0\<close> have "n = 146097 * a + 146097" by simp
    moreover from this have "n \<le> 3652059 \<longrightarrow> 400 * a + 400 \<le> 9999" by simp
    ultimately show ?thesis using o a0 by simp
  next
    case b4: False
    with b0 have b3: "b \<le> 3" by simp
    show ?thesis
    proof (cases "e = 4")
      case True
      with r3' r3 r4 have "r4 = 0" by linarith
      have c23: "c \<le> 23"
      proof (rule ccontr)
        assume "\<not> c \<le> 23"
        with c0 have "c = 24" by simp
        with r2' r2 True r3' r4 show False by linarith
      qed
      from True have o: "ord2ymd n = (400 * a + 100 * b + 4 * c + 4, 12, 31)"
        by (simp add: unfold ymd_tail_eq)
      have y: "400 * a + 100 * b + 4 * c + 4 = 400 * a + 100 * b + 4 * c + 3 + 1" by simp
      have "days_before_year (400 * a + 100 * b + 4 * c + 4) =
          146097 * a + 36524 * b + 1461 * c + 365 * 3"
        by (subst y, rule year_arith) (use b0 b3 c0 in simp_all)
      moreover have "is_leap (400 * a + 100 * b + 4 * c + 4)"
        by (subst y, subst year_arith) (use b0 b3 c0 c23 in simp_all)
      ultimately have "ymd2ord (400 * a + 100 * b + 4 * c + 4, 12, 31) =
          146097 * a + 36524 * b + 1461 * c + 1461"
        by (simp add: ymd2ord_def days_before_month_def DAYS_BEFORE_MONTH_def)
      moreover from n r1' r2' r3' True \<open>r4 = 0\<close>
      have n': "n = 146097 * a + 36524 * b + 1461 * c + 1461" by simp
      moreover have "n \<le> 3652059 \<longrightarrow> 400 * a + 100 * b + 4 * c + 4 \<le> 9999"
        using n' b0 b3 c0 c23 by linarith
      moreover have "1 \<le> 400 * a + 100 * b + 4 * c + 4"
        using a0 b0 c0 by linarith
      ultimately show ?thesis using o by simp
    next
      case e4: False
      with e0 have e3: "e \<le> 3" by simp
      let ?leap = "e = 3 \<and> (c \<noteq> 24 \<or> b = 3)"
      let ?Y = "400 * a + 100 * b + 4 * c + e + 1"
      obtain m d where md: "month_day r4 ?leap = (m, d)" by (cases "month_day r4 ?leap")
      from b4 e4 md have o: "ord2ymd n = (?Y, m, d)"
        by (simp add: unfold ymd_tail_eq)
      from r4 have "r4 \<le> 364" by simp
      from month_day_props [OF r4(1) this md]
      have mdp: "1 \<le> m" "m \<le> 12" "1 \<le> d" "d \<le> 31"
        "DAYS_BEFORE_MONTH ! nat m + (if m > 2 \<and> ?leap then 1 else 0) + d = r4 + 1"
        by simp_all
      have dby: "days_before_year ?Y = 146097 * a + 36524 * b + 1461 * c + 365 * e"
        by (rule year_arith) (use b0 b3 c0 e0 e3 in simp_all)
      have leap: "is_leap ?Y \<longleftrightarrow> ?leap"
        by (rule year_arith) (use b0 b3 c0 e0 e3 in simp_all)
      have dbm: "days_before_month ?Y m =
          DAYS_BEFORE_MONTH ! nat m + (if m > 2 \<and> ?leap then 1 else 0)"
        using leap by (simp only: days_before_month_def)
      have "ymd2ord (?Y, m, d) =
          days_before_year ?Y + (DAYS_BEFORE_MONTH ! nat m + (if m > 2 \<and> ?leap then 1 else 0) + d)"
        unfolding ymd2ord_def prod.case by (subst dbm) simp
      also have "\<dots> = n"
        unfolding mdp(5) dby using n r1' r2' r3' by simp
      finally have rt: "ymd2ord (?Y, m, d) = n" .
      have "n \<le> 3652059 \<longrightarrow> ?Y \<le> 9999"
        using n r1' r2' r3' r4 b0 b3 c0 e0 e3 by linarith
      moreover have "1 \<le> ?Y" using a0 b0 c0 e0 by linarith
      ultimately show ?thesis using o mdp(1-4) rt by simp
    qed
  qed
qed


lemma digit_inj:
  assumes "0 \<le> j" "j \<le> 9" "0 \<le> k" "k \<le> 9" "digit j = digit k"
  shows "j = k"
proof -
  have "distinct ''0123456789''" by simp
  moreover from assms have "nat j < length ''0123456789''" "nat k < length ''0123456789''"
    by simp_all
  ultimately have "nat j = nat k"
    using assms(5) unfolding digit_def by (simp only: nth_eq_iff_index_eq)
  with assms show ?thesis by simp
qed

lemma digit_in_digits:
  assumes "0 \<le> k" "k \<le> 9"
  shows "digit k \<in> set ''0123456789''"
proof -
  from assms have "nat k < length ''0123456789''" by simp
  then show ?thesis unfolding digit_def by (rule nth_mem)
qed

lemma digit_mod_inj:
  fixes j k :: int
  assumes "digit (j mod 10) = digit (k mod 10)"
  shows "j mod 10 = k mod 10"
  by (rule digit_inj [OF _ _ _ _ assms]) simp_all

lemma div_mod_10_eq:
  fixes x y :: int
  assumes "x div 10 = y div 10" "x mod 10 = y mod 10"
  shows "x = y"
  using assms by (metis div_mult_mod_eq)

lemma div_100: "(y::int) div 100 = y div 10 div 10"
  using zdiv_zmult2_eq [of 10 y 10] by simp

lemma div_1000: "(y::int) div 1000 = y div 10 div 10 div 10"
proof -
  have "y div 1000 = y div (10 * 100)" by simp
  also have "\<dots> = y div 10 div 100" by (rule zdiv_zmult2_eq) simp
  also have "\<dots> = y div 10 div 10 div 10" by (rule div_100)
  finally show ?thesis .
qed

lemma isoformat_inj:
  assumes "0 \<le> y" "y < 10000" "0 \<le> m" "m < 100" "0 \<le> d" "d < 100"
    and "0 \<le> y'" "y' < 10000" "0 \<le> m'" "m' < 100" "0 \<le> d'" "d' < 100"
    and eq: "isoformat (y, m, d) = isoformat (y', m', d')"
  shows "y = y' \<and> m = m' \<and> d = d'"
proof -
  from eq have e:
    "digit (y div 1000 mod 10) = digit (y' div 1000 mod 10)"
    "digit (y div 100 mod 10) = digit (y' div 100 mod 10)"
    "digit (y div 10 mod 10) = digit (y' div 10 mod 10)"
    "digit (y mod 10) = digit (y' mod 10)"
    "digit (m div 10 mod 10) = digit (m' div 10 mod 10)"
    "digit (m mod 10) = digit (m' mod 10)"
    "digit (d div 10 mod 10) = digit (d' div 10 mod 10)"
    "digit (d mod 10) = digit (d' mod 10)"
    by (simp_all add: isoformat_def)
  note y3 = digit_mod_inj [OF e(1)] and y2 = digit_mod_inj [OF e(2)]
    and y1 = digit_mod_inj [OF e(3)] and y0 = digit_mod_inj [OF e(4)]
    and m1 = digit_mod_inj [OF e(5)] and m0 = digit_mod_inj [OF e(6)]
    and d1 = digit_mod_inj [OF e(7)] and d0 = digit_mod_inj [OF e(8)]
  from assms(1,2,7,8) have "y div 1000 < 10" "0 \<le> y div 1000" "y' div 1000 < 10" "0 \<le> y' div 1000"
    by simp_all
  with y3 have "y div 1000 = y' div 1000" by simp
  then have c3: "y div 10 div 10 div 10 = y' div 10 div 10 div 10"
    by (simp only: div_1000)
  from y2 have c2: "y div 10 div 10 mod 10 = y' div 10 div 10 mod 10"
    by (simp only: div_100)
  from c3 c2 have "y div 10 div 10 = y' div 10 div 10" by (rule div_mod_10_eq)
  from this y1 have "y div 10 = y' div 10" by (rule div_mod_10_eq)
  from this y0 have "y = y'" by (rule div_mod_10_eq)
  from assms(3,4,9,10) have "m div 10 < 10" "0 \<le> m div 10" "m' div 10 < 10" "0 \<le> m' div 10"
    by simp_all
  with m1 have "m div 10 = m' div 10" by simp
  from this m0 have "m = m'" by (rule div_mod_10_eq)
  from assms(5,6,11,12) have "d div 10 < 10" "0 \<le> d div 10" "d' div 10 < 10" "0 \<le> d' div 10"
    by simp_all
  with d1 have "d div 10 = d' div 10" by simp
  from this d0 have "d = d'" by (rule div_mod_10_eq)
  from \<open>y = y'\<close> \<open>m = m'\<close> \<open>d = d'\<close> show ?thesis by simp
qed

lemma date_str_inj:
  assumes "valid_date a" "valid_date b" "date_str a = date_str b"
  shows "a = b"
proof -
  from assms(1) ord2ymd_props [of a] obtain y m d where a:
    "ord2ymd a = (y, m, d)" "1 \<le> y" "1 \<le> m" "m \<le> 12" "1 \<le> d" "d \<le> 31"
    "ymd2ord (y, m, d) = a" "y \<le> 9999"
    unfolding valid_date_def by blast
  from assms(2) ord2ymd_props [of b] obtain y' m' d' where b:
    "ord2ymd b = (y', m', d')" "1 \<le> y'" "1 \<le> m'" "m' \<le> 12" "1 \<le> d'" "d' \<le> 31"
    "ymd2ord (y', m', d') = b" "y' \<le> 9999"
    unfolding valid_date_def by blast
  from assms(3) a(1) b(1) have "isoformat (y, m, d) = isoformat (y', m', d')"
    by (simp add: date_str_def)
  then have "y = y' \<and> m = m' \<and> d = d'"
    by (rule isoformat_inj [rotated -1]) (use a b in simp_all)
  with a(7) b(7) show ?thesis by simp
qed


lemma date_str_length: "length (date_str n) = 10"
  by (cases "ord2ymd n") (simp add: date_str_def isoformat_def)

lemma date_str_hd: "date_str n ! 0 \<in> set ''0123456789''"
proof -
  obtain y m d where "ord2ymd n = (y, m, d)" by (cases "ord2ymd n")
  then have "date_str n ! 0 = digit (y div 1000 mod 10)"
    by (simp add: date_str_def isoformat_def)
  moreover have "digit (y div 1000 mod 10) \<in> set ''0123456789''"
    by (rule digit_in_digits) simp_all
  ultimately show ?thesis by simp
qed

lemma sublist_after_prefix:
  assumes "sublist t (pre @ t')" and "length t = length t'" and "0 < length t"
    and "t ! 0 \<notin> set pre"
  shows "t = t'"
proof -
  from assms(1) obtain ps ss where eq: "pre @ t' = ps @ t @ ss"
    unfolding sublist_def by blast
  then have "length (pre @ t') = length (ps @ t @ ss)" by simp
  with assms(2) have len: "length ps + length ss = length pre" by simp
  have "\<not> length ps < length pre"
  proof
    assume lt: "length ps < length pre"
    then have "(pre @ t') ! length ps = pre ! length ps"
      by (simp add: nth_append)
    moreover from lt have "pre ! length ps \<in> set pre"
      by (rule nth_mem)
    moreover have "(ps @ t @ ss) ! length ps = t ! 0"
      using assms(3) by (simp add: nth_append)
    ultimately have "t ! 0 \<in> set pre" using eq by simp
    with assms(4) show False by simp
  qed
  with len have "length ps = length pre" "length ss = 0" by linarith+
  with eq show ?thesis by simp
qed

lemma conflict_msg_mentions:
  assumes "valid_date d" "valid_date d'"
  shows "sublist (date_str d) (conflict_msg (date_str d')) \<longleftrightarrow> d' = d"
proof
  assume "d' = d"
  then have "conflict_msg (date_str d') = ''No eligible provider for '' @ date_str d @ []"
    by (simp add: conflict_msg_def)
  then show "sublist (date_str d) (conflict_msg (date_str d'))"
    unfolding sublist_def by blast
next
  assume "sublist (date_str d) (conflict_msg (date_str d'))"
  then have "sublist (date_str d) (''No eligible provider for '' @ date_str d')"
    by (simp only: conflict_msg_def)
  moreover have "date_str d ! 0 \<notin> set ''No eligible provider for ''"
    using date_str_hd [of d] by auto
  ultimately have "date_str d = date_str d'"
    by (intro sublist_after_prefix [of "date_str d" "''No eligible provider for ''" "date_str d'"])
       (simp_all only: date_str_length, simp_all)
  with assms show "d' = d" by (intro date_str_inj) simp_all
qed

lemma unfilled_subset: "set (unfilled evs) \<subseteq> fst ` set evs"
  by (induction evs rule: unfilled.induct) auto

lemma filled_subset: "fst ` set (filled evs) \<subseteq> fst ` set evs"
  by (induction evs rule: filled.induct) auto

lemma filled_or_unfilled:
  "d \<in> fst ` set evs \<Longrightarrow> d \<in> fst ` set (filled evs) \<or> d \<in> set (unfilled evs)"
  by (induction evs rule: filled.induct) auto

lemma filled_not_unfilled:
  "distinct (map fst evs) \<Longrightarrow> d \<in> fst ` set (filled evs) \<Longrightarrow> d \<notin> set (unfilled evs)"
proof (induction evs rule: filled.induct)
  case 1
  then show ?case by simp
next
  case (2 x evs)
  then show ?case using filled_subset [of evs] by (auto simp: image_iff)
next
  case (3 x q evs)
  then show ?case using unfilled_subset [of evs] by (auto simp: image_iff)
qed

lemma unfilled_distinct: "distinct (map fst evs) \<Longrightarrow> distinct (unfilled evs)"
proof (induction evs rule: unfilled.induct)
  case (2 x evs)
  then show ?case using unfilled_subset [of evs] by (auto simp: image_iff)
qed simp_all

lemma unfilled_sorted: "sorted (map fst evs) \<Longrightarrow> sorted (unfilled evs)"
proof (induction evs rule: unfilled.induct)
  case (2 x evs)
  then show ?case using unfilled_subset [of evs] by (auto simp: image_iff)
qed simp_all

lemma unfilled_eq_filter:
  "distinct (map fst evs) \<Longrightarrow>
     unfilled evs = filter (\<lambda>d. d \<notin> fst ` set (filled evs)) (map fst evs)"
proof (induction evs rule: unfilled.induct)
  case 1
  then show ?case by simp
next
  case (2 x evs)
  then have "x \<notin> fst ` set (filled evs)" using filled_subset [of evs] by auto
  with 2 show ?case by simp
next
  case (3 x q evs)
  then have "x \<notin> set (map fst evs)" by simp
  then have "filter (\<lambda>d. d \<notin> fst ` set (filled ((x, Some q) # evs))) (map fst evs) =
      filter (\<lambda>d. d \<notin> fst ` set (filled evs)) (map fst evs)"
    by (intro filter_cong) auto
  with 3 show ?case by simp
qed

lemma length_filter_eq_distinct:
  "distinct xs \<Longrightarrow> length (filter (\<lambda>x. x = d) xs) = (if d \<in> set xs then 1 else 0)"
  by (induction xs) auto


lemma generate_schedule_events:
  assumes "generate_schedule (Some s) req = (Inr r, Some s')"
  shows "\<exists>evs.
     map fst evs = slot_days (min (length (provider s)) (length (reg_shifts s))) (start_date req)
                     (py_range (end_date req - start_date req + 1)) \<and>
     assignment s' = assignment s
        @ map (\<lambda>(d, q). new_assignment q (date_str d) (shift_site (hd (reg_shifts s)))) (filled evs) \<and>
     conflicts r = map (\<lambda>d. conflict_msg (date_str d)) (unfilled evs) \<and>
     created r = int (length (filled evs)) \<and>
     (\<forall>(d, q)\<in>set (filled evs). q \<in> set (provider s) \<and>
        \<not> lacks_qualification (requires_qualification (hd (reg_shifts s))) q)"
proof -
  note ne = generate_schedule_Inr [OF assms]
  let ?sv = "shift_site (hd (reg_shifts s))"
  let ?nq = "requires_qualification (hd (reg_shifts s))"
  let ?ds = "slot_days (min (length (provider s)) (length (reg_shifts s))) (start_date req)
         (py_range (end_date req - start_date req + 1))"
  let ?st = "run_slots (provider s) ?sv ?nq ?ds (initial_locals s)"
  from assms have r: "created r = l_created ?st" "conflicts r = l_conflicts ?st" "s' = l_db ?st"
    by (auto simp: generate_schedule_run [OF ne])
  from run_slots_events [OF ne(1), of ?ds ?sv "initial_locals s" ?nq]
  obtain evs where evs: "map fst evs = ?ds" "explains ?sv (initial_locals s) evs ?st"
    "\<forall>(d, q)\<in>set (filled evs). q \<in> set (provider s) \<and> \<not> lacks_qualification ?nq q"
    by blast
  from evs(2) r have "assignment s' = assignment s
        @ map (\<lambda>(d, q). new_assignment q (date_str d) ?sv) (filled evs)"
    "conflicts r = map (\<lambda>d. conflict_msg (date_str d)) (unfilled evs)"
    "created r = int (length (filled evs))"
    by (simp_all add: explains_def initial_locals_def)
  with evs(1,3) show ?thesis by blast
qed

lemma slot_days_set: "set (slot_days k a js) \<subseteq> (\<lambda>i. a + i) ` set js"
  by (auto simp: slot_days_def)

lemma slot_days_sorted: "sorted js \<Longrightarrow> sorted (slot_days k a js)"
proof (induction js)
  case Nil
  show ?case by (simp add: slot_days_def)
next
  case (Cons j js)
  have split: "slot_days k a (j # js) = replicate k (a + j) @ slot_days k a js"
    by (simp add: slot_days_def)
  from Cons.prems have "\<forall>y\<in>set (slot_days k a js). a + j \<le> y"
    using slot_days_set [of k a js] by auto
  with Cons show ?case
    by (auto simp: split sorted_append sorted_replicate)
qed

lemma py_range_sorted: "sorted (py_range n)"
  by (simp add: py_range_def sorted_map) 

lemma py_range_set: "set (py_range n) = {0..<n}"
proof -
  have "int ` {0..<nat n} = {0..<n}"
  proof (intro set_eqI iffI)
    fix x assume "x \<in> int ` {0..<nat n}"
    then show "x \<in> {0..<n}" by auto
  next
    fix x assume "x \<in> {0..<n}"
    then have "nat x \<in> {0..<nat n}" "x = int (nat x)" by auto
    then show "x \<in> int ` {0..<nat n}" by (rule rev_image_eqI)
  qed
  then show ?thesis by (simp add: py_range_def)
qed

lemma slot_days_range:
  "set (slot_days k a (py_range (b - a + 1))) \<subseteq> {a..b}"
  using slot_days_set [of k a "py_range (b - a + 1)"] by (auto simp: py_range_set)



section \<open>Example runs\<close>

lemma ex_run:
  "generate_schedule (Some ex_store) ex_req = (Inr \<lparr>created = 2, conflicts = []\<rparr>, Some ex_after)"
  by code_simp

lemma ex_run_X:
  "generate_schedule (Some ex_store_X) ex_req =
     (Inr \<lparr>created = 2, conflicts = []\<rparr>, Some ex_after_X)"
  by code_simp

lemma ex_run_booked:
  "generate_schedule (Some ex_store_booked) ex_req =
     (Inr \<lparr>created = 1, conflicts = [''No eligible provider for 2024-01-01'']\<rparr>,
      Some ex_after_booked)"
  by code_simp

lemma ex_valid: "valid_date (start_date ex_req)" "valid_date (end_date ex_req)"
  by (simp_all add: ex_req_def valid_date_def)

lemma ex_one: "length (reg_shifts ex_store) = 1" "length (reg_shifts ex_store_booked) = 1"
  by (simp_all add: reg_shifts_def find_all_def ex_store_def ex_store_booked_def ex_reg_def)

section \<open>No double booking\<close>

text \<open>
  C1. A successful run only appends to the assignment collection. The appended documents have
  pairwise different (provider identifier, date) pairs, and none of these pairs occurs in the
  collection as it was before the run. Hence, if no two Assignment documents of the store
  share provider identifier and date before the run, none do after it.
\<close>

theorem generate_preserves_unique_bookings:
  assumes "generate_schedule (Some s) req = (Inr r, Some s')"
  shows "\<exists>news. assignment s' = assignment s @ news \<and>
           distinct (map booking news) \<and>
           booking ` set news \<inter> booking ` set (assignment s) = {} \<and>
           (distinct (map booking (assignment s)) \<longrightarrow> distinct (map booking (assignment s')))"
proof -
  note ne = generate_schedule_Inr [OF assms]
  let ?st = "run_slots (provider s) (shift_site (hd (reg_shifts s)))
      (requires_qualification (hd (reg_shifts s)))
      (slot_days (min (length (provider s)) (length (reg_shifts s))) (start_date req)
         (py_range (end_date req - start_date req + 1)))
      (initial_locals s)"
  from assms have s': "s' = l_db ?st"
    by (simp add: generate_schedule_run [OF ne])
  from run_slots_bookings [OF ne(1)] obtain news where news:
    "assignment (l_db ?st) = assignment (l_db (initial_locals s)) @ news"
    "distinct (map booking news)"
    "booking ` set news \<inter> booking ` set (assignment (l_db (initial_locals s))) = {}"
    by blast
  have init: "l_db (initial_locals s) = s" by (simp add: initial_locals_def)
  from news init s' have "assignment s' = assignment s @ news"
    and "booking ` set news \<inter> booking ` set (assignment s) = {}"
    by simp_all
  moreover from this news(2)
  have "distinct (map booking (assignment s)) \<longrightarrow> distinct (map booking (assignment s'))"
    by auto
  ultimately show ?thesis using news(2) by blast
qed

theorem generate_preserves_unique_bookings_witness:
  "\<exists>news. assignment ex_after = assignment ex_store @ news \<and>
           distinct (map booking news) \<and>
           booking ` set news \<inter> booking ` set (assignment ex_store) = {} \<and>
           distinct (map booking (assignment ex_after))"
proof -
  from generate_preserves_unique_bookings [OF ex_run] obtain news where n:
    "assignment ex_after = assignment ex_store @ news" "distinct (map booking news)"
    "booking ` set news \<inter> booking ` set (assignment ex_store) = {}"
    "distinct (map booking (assignment ex_store)) \<longrightarrow> distinct (map booking (assignment ex_after))"
    by blast
  have "distinct (map booking (assignment ex_store))" by (simp add: ex_store_def)
  with n show ?thesis by blast
qed

section \<open>One outcome per day\<close>

text \<open>
  C3. With exactly one REG shift type and \<open>start_date \<le> end_date\<close>, the created count plus
  the number of conflicts of a successful run is the number of days of the inclusive range.
\<close>

theorem created_plus_conflicts_eq_days:
  assumes "generate_schedule (Some s) req = (Inr r, Some s')"
    and "length (reg_shifts s) = 1"
    and "start_date req \<le> end_date req"
  shows "created r + int (length (conflicts r)) = end_date req - start_date req + 1"
proof -
  from generate_schedule_Inr(1) [OF assms(1)] assms(2)
  have k: "min (length (provider s)) (length (reg_shifts s)) = Suc 0"
    by (cases "provider s") simp_all
  from generate_schedule_events [OF assms(1)] obtain evs where evs:
    "map fst evs = [start_date req..end_date req]"
    "conflicts r = map (\<lambda>d. conflict_msg (date_str d)) (unfilled evs)"
    "created r = int (length (filled evs))"
    unfolding k slot_days_one by blast
  have "length evs = length [start_date req..end_date req]"
    using evs(1) by (metis length_map)
  moreover have "int (length [start_date req..end_date req]) = end_date req - start_date req + 1"
    using assms(3) by simp
  ultimately have "int (length (filled evs)) + int (length (unfilled evs)) =
      end_date req - start_date req + 1"
    using filled_unfilled_length [of evs] by linarith
  with evs(2,3) show ?thesis by simp
qed

theorem created_plus_conflicts_eq_days_witness:
  "created \<lparr>created = 2, conflicts = []\<rparr> + int (length (conflicts \<lparr>created = 2, conflicts = []\<rparr>))
     = end_date ex_req - start_date ex_req + 1"
proof -
  have h: "start_date ex_req \<le> end_date ex_req" by (simp add: ex_req_def)
  show ?thesis by (rule created_plus_conflicts_eq_days [OF ex_run ex_one(1) h])
qed

text \<open>
  C2. With exactly one REG shift type (and at least one provider, or the run fails), for
  every day \<open>d\<close> of the inclusive range exactly one of these holds after a successful run:
  the run appended an Assignment dated \<open>d\<close> with shift type REG, the site of the selected
  shift and provenance AI; or the date string of \<open>d\<close> occurs in exactly one entry of the
  returned conflicts. The dates of the request are dates, that is, ordinals of
  \<^verbatim>\<open>date.min\<close> to \<^verbatim>\<open>date.max\<close>.
\<close>

theorem each_day_assigned_or_conflict:
  assumes gen: "generate_schedule (Some s) req = (Inr r, Some s')"
    and one: "length (reg_shifts s) = 1"
    and v: "valid_date (start_date req)" "valid_date (end_date req)"
    and d: "start_date req \<le> d" "d \<le> end_date req"
  shows "(\<exists>a\<in>set (drop (length (assignment s)) (assignment s')).
            date a = date_str d \<and> shift_type a = ''REG'' \<and>
            site a = shift_site (hd (reg_shifts s)) \<and> generated_by a = ''AI'')
         \<noteq> (length (filter (sublist (date_str d)) (conflicts r)) = 1)"
proof -
  let ?sv = "shift_site (hd (reg_shifts s))"
  let ?k = "min (length (provider s)) (length (reg_shifts s))"
  from generate_schedule_events [OF gen] obtain evs where evs:
    "map fst evs = slot_days ?k (start_date req) (py_range (end_date req - start_date req + 1))"
    "assignment s' = assignment s
        @ map (\<lambda>(d, q). new_assignment q (date_str d) ?sv) (filled evs)"
    "conflicts r = map (\<lambda>d. conflict_msg (date_str d)) (unfilled evs)"
    by blast
  from generate_schedule_Inr(1) [OF gen] one have "?k = Suc 0"
    by (cases "provider s") simp_all
  with evs(1) have days: "map fst evs = [start_date req..end_date req]"
    by (simp add: slot_days_one)
  then have dist: "distinct (map fst evs)" by simp
  from d days have din: "d \<in> fst ` set evs" by (metis atLeastAtMost_iff set_map set_upto)
  from d v have vd: "valid_date d" by (simp add: valid_date_def)
  have valid_day: "valid_date d'" if "d' \<in> fst ` set evs" for d'
  proof -
    from that days have "d' \<in> set [start_date req..end_date req]" by (metis set_map)
    with v show ?thesis by (simp add: valid_date_def)
  qed
  have news: "drop (length (assignment s)) (assignment s') =
      map (\<lambda>(d, q). new_assignment q (date_str d) ?sv) (filled evs)"
    using evs(2) by simp
  have a_iff: "(\<exists>a\<in>set (drop (length (assignment s)) (assignment s')).
            date a = date_str d \<and> shift_type a = ''REG'' \<and> site a = ?sv \<and> generated_by a = ''AI'')
      \<longleftrightarrow> d \<in> fst ` set (filled evs)"
  proof
    assume "\<exists>a\<in>set (drop (length (assignment s)) (assignment s')).
            date a = date_str d \<and> shift_type a = ''REG'' \<and> site a = ?sv \<and> generated_by a = ''AI''"
    then obtain d' q where dq: "(d', q) \<in> set (filled evs)" "date_str d' = date_str d"
      unfolding news by (auto simp: new_assignment_def)
    from dq(1) have "d' \<in> fst ` set evs" using filled_subset [of evs] by force
    then have "valid_date d'" by (rule valid_day)
    with vd dq(2) have "d' = d" by (intro date_str_inj)
    with dq(1) show "d \<in> fst ` set (filled evs)" by force
  next
    assume "d \<in> fst ` set (filled evs)"
    then obtain q where "(d, q) \<in> set (filled evs)" by auto
    then have "new_assignment q (date_str d) ?sv
        \<in> set (drop (length (assignment s)) (assignment s'))"
      unfolding news by force
    then show "\<exists>a\<in>set (drop (length (assignment s)) (assignment s')).
            date a = date_str d \<and> shift_type a = ''REG'' \<and> site a = ?sv \<and> generated_by a = ''AI''"
      by (rule rev_bexI) (simp add: new_assignment_def)
  qed
  have "filter (sublist (date_str d)) (conflicts r) =
      map (\<lambda>d. conflict_msg (date_str d)) (filter (\<lambda>d'. d' = d) (unfilled evs))"
  proof -
    have "filter (\<lambda>d'. sublist (date_str d) (conflict_msg (date_str d'))) (unfilled evs) =
        filter (\<lambda>d'. d' = d) (unfilled evs)"
    proof (rule filter_cong [OF refl])
      fix d' assume "d' \<in> set (unfilled evs)"
      then have "valid_date d'" using unfilled_subset [of evs] valid_day by blast
      with vd show "sublist (date_str d) (conflict_msg (date_str d')) \<longleftrightarrow> d' = d"
        by (rule conflict_msg_mentions)
    qed
    then show ?thesis by (simp add: evs(3) filter_map comp_def)
  qed
  then have "length (filter (sublist (date_str d)) (conflicts r)) =
      (if d \<in> set (unfilled evs) then 1 else 0)"
    using length_filter_eq_distinct [OF unfilled_distinct [OF dist], of d] by simp
  then have b_iff: "length (filter (sublist (date_str d)) (conflicts r)) = 1
      \<longleftrightarrow> d \<in> set (unfilled evs)"
    by simp
  have "d \<in> fst ` set (filled evs) \<longleftrightarrow> d \<notin> set (unfilled evs)"
    using filled_or_unfilled [OF din] filled_not_unfilled [OF dist, of d] by blast
  with a_iff b_iff show ?thesis by blast
qed

theorem each_day_assigned_or_conflict_witness:
  "(\<exists>a\<in>set (drop (length (assignment ex_store_booked)) (assignment ex_after_booked)).
            date a = date_str 738886 \<and> shift_type a = ''REG'' \<and>
            site a = shift_site (hd (reg_shifts ex_store_booked)) \<and> generated_by a = ''AI'')
   \<noteq> (length (filter (sublist (date_str 738886))
         (conflicts \<lparr>created = 1, conflicts = [''No eligible provider for 2024-01-01'']\<rparr>)) = 1)"
proof -
  have h: "start_date ex_req \<le> 738886" "738886 \<le> end_date ex_req"
    by (simp_all add: ex_req_def)
  show ?thesis
    by (rule each_day_assigned_or_conflict [OF ex_run_booked ex_one(2) ex_valid h])
qed

section \<open>The conflicts list\<close>

text \<open>
  C7 as stated fails: the message starts with a capital letter.
\<close>

theorem conflict_message_is_capitalised:
  "generate_schedule (Some ex_store_booked) ex_day =
     (Inr \<lparr>created = 0, conflicts = [''No eligible provider for 2024-01-01'']\<rparr>,
      Some ex_store_booked) \<and>
   ''No eligible provider for 2024-01-01'' \<noteq> ''no eligible provider for 2024-01-01''"
  by code_simp

text \<open>
  C7, amended. The conflicts of a successful run are the messages
  \<^verbatim>\<open>No eligible provider for <date>\<close> of a list of days of the range in ascending order.
  With exactly one REG shift type (and dates that are dates) these days are exactly the days
  of the range, each once, for which the run appended no Assignment.
\<close>

theorem conflicts_are_messages_in_date_order:
  assumes "generate_schedule (Some s) req = (Inr r, Some s')"
  shows "\<exists>ds. conflicts r = map (\<lambda>d. ''No eligible provider for '' @ date_str d) ds \<and>
     sorted ds \<and> set ds \<subseteq> {start_date req..end_date req} \<and>
     (length (reg_shifts s) = 1 \<and> valid_date (start_date req) \<and> valid_date (end_date req) \<longrightarrow>
        ds = filter (\<lambda>d. \<forall>a\<in>set (drop (length (assignment s)) (assignment s')).
                          date a \<noteq> date_str d)
               [start_date req..end_date req])"
proof -
  let ?sv = "shift_site (hd (reg_shifts s))"
  let ?k = "min (length (provider s)) (length (reg_shifts s))"
  let ?sd = "slot_days ?k (start_date req) (py_range (end_date req - start_date req + 1))"
  from generate_schedule_events [OF assms] obtain evs where evs:
    "map fst evs = ?sd"
    "assignment s' = assignment s
        @ map (\<lambda>(d, q). new_assignment q (date_str d) ?sv) (filled evs)"
    "conflicts r = map (\<lambda>d. conflict_msg (date_str d)) (unfilled evs)"
    by blast
  let ?ds = "unfilled evs"
  have c: "conflicts r = map (\<lambda>d. ''No eligible provider for '' @ date_str d) ?ds"
    using evs(3) by (simp add: conflict_msg_def)
  have "sorted ?sd" by (intro slot_days_sorted py_range_sorted)
  then have so: "sorted ?ds" using evs(1) by (intro unfilled_sorted) simp
  have "set ?ds \<subseteq> set (map fst evs)" using unfilled_subset [of evs] by simp
  then have ra: "set ?ds \<subseteq> {start_date req..end_date req}"
    using slot_days_range [of ?k "start_date req" "end_date req"] evs(1) by auto
  have single: "?ds = filter (\<lambda>d. \<forall>a\<in>set (drop (length (assignment s)) (assignment s')).
                          date a \<noteq> date_str d) [start_date req..end_date req]"
    if one: "length (reg_shifts s) = 1" and v: "valid_date (start_date req)" "valid_date (end_date req)"
  proof -
    from generate_schedule_Inr(1) [OF assms] one have "?k = Suc 0"
      by (cases "provider s") simp_all
    with evs(1) have days: "map fst evs = [start_date req..end_date req]"
      by (simp add: slot_days_one)
    then have dist: "distinct (map fst evs)" by simp
    have news: "drop (length (assignment s)) (assignment s') =
        map (\<lambda>(d, q). new_assignment q (date_str d) ?sv) (filled evs)"
      using evs(2) by simp
    have "(d \<notin> fst ` set (filled evs)) \<longleftrightarrow>
        (\<forall>a\<in>set (drop (length (assignment s)) (assignment s')). date a \<noteq> date_str d)"
      if d: "d \<in> set [start_date req..end_date req]" for d
    proof -
      from d v have vd: "valid_date d" by (simp add: valid_date_def)
      have "date_str d' = date_str d \<longleftrightarrow> d' = d" if "(d', q) \<in> set (filled evs)" for d' q
      proof -
        from that have "d' \<in> fst ` set evs" using filled_subset [of evs] by force
        with days have "d' \<in> set [start_date req..end_date req]"
          by (metis set_map)
        with v have "valid_date d'" by (simp add: valid_date_def)
        with vd show ?thesis using date_str_inj by blast
      qed
      then show ?thesis
        unfolding news by (force simp: new_assignment_def image_iff)
    qed
    then have "filter (\<lambda>d. d \<notin> fst ` set (filled evs)) [start_date req..end_date req] =
        filter (\<lambda>d. \<forall>a\<in>set (drop (length (assignment s)) (assignment s')). date a \<noteq> date_str d)
          [start_date req..end_date req]"
      by (intro filter_cong) simp_all
    with unfilled_eq_filter [OF dist] days show ?thesis by simp
  qed
  from c so ra single show ?thesis by blast
qed

theorem conflicts_are_messages_in_date_order_witness:
  "\<exists>ds. conflicts \<lparr>created = 1, conflicts = [''No eligible provider for 2024-01-01'']\<rparr> =
          map (\<lambda>d. ''No eligible provider for '' @ date_str d) ds \<and>
     sorted ds \<and> set ds \<subseteq> {start_date ex_req..end_date ex_req} \<and>
     ds = filter (\<lambda>d. \<forall>a\<in>set (drop (length (assignment ex_store_booked))
                              (assignment ex_after_booked)). date a \<noteq> date_str d)
               [start_date ex_req..end_date ex_req]"
  using conflicts_are_messages_in_date_order [OF ex_run_booked] ex_one(2) ex_valid
  by blast


section \<open>Eligibility along a run\<close>

lemma double_booked_append:
  "double_booked s q dd \<Longrightarrow> double_booked (s\<lparr>assignment := assignment s @ xs\<rparr>) q dd"
  by (auto simp: double_booked_iff)

lemma eligible_assign_mono:
  "\<not> eligible (l_db st) nq dd q \<Longrightarrow> \<not> eligible (l_db (assign q' dd' sv k st)) nq dd q"
  by (auto simp: eligible_def assign_def double_booked_append)

lemma eligible_give_up: "eligible (l_db (give_up dd' k st)) nq dd q = eligible (l_db st) nq dd q"
  by (simp add: give_up_def)

lemma slot_step_ineligible_mono:
  assumes "ps \<noteq> []" and "\<not> eligible (l_db st) nq dd q"
  shows "\<not> eligible (l_db (slot_step ps sv nq d st)) nq dd q"
proof (rule slot_step_outcome [OF assms(1), of st nq d sv], goal_cases)
  case (1 q' k)
  with assms(2) show ?case by (simp add: eligible_assign_mono)
next
  case 2
  with assms(2) show ?case by (simp add: eligible_give_up)
qed

lemma run_slots_ineligible_mono:
  assumes "ps \<noteq> []"
  shows "\<not> eligible (l_db st) nq dd q \<Longrightarrow> \<not> eligible (l_db (run_slots ps sv nq ds st)) nq dd q"
proof (induction ds arbitrary: st)
  case Nil
  then show ?case by (simp add: run_slots_Nil)
next
  case (Cons d ds)
  from Cons.prems have "\<not> eligible (l_db (slot_step ps sv nq d st)) nq dd q"
    by (rule slot_step_ineligible_mono [OF assms])
  then show ?case unfolding run_slots_Cons by (rule Cons.IH)
qed







section \<open>The loops and the allocator of the specification\<close>

lemma while_tries_spec:
  "while_tries ps sv nq dd tries st =
     (case spec_try ps (l_db st) nq dd (length ps - tries) (l_p st) of
        (Some q, p') \<Rightarrow>
          st\<lparr>l_p := p',
             l_db := (l_db st)\<lparr>assignment := assignment (l_db st) @ [new_assignment q dd sv]\<rparr>,
             l_created := l_created st + 1\<rparr>
      | (None, p') \<Rightarrow> st\<lparr>l_p := p', l_conflicts := l_conflicts st @ [conflict_msg dd]\<rparr>)"
proof (induction ps sv nq dd tries st rule: while_tries.induct)
  case (1 ps sv nq dd tries st)
  show ?case
  proof (cases "tries < length ps")
    case False
    then show ?thesis by (subst while_tries.simps) simp
  next
    case True
    then have budget: "length ps - tries = Suc (length ps - (tries + 1))" by simp
    let ?c = "ps ! (l_p st mod length ps)"
    let ?st1 = "st\<lparr>l_p := l_p st + 1\<rparr>"
    show ?thesis
    proof (cases "eligible (l_db st) nq dd ?c")
      case el: True
      with True show ?thesis
        unfolding budget
        by (subst while_tries.simps) (simp add: eligible_def create_document_def Let_def)
    next
      case nel: False
      from True nel have step: "while_tries ps sv nq dd tries st =
          while_tries ps sv nq dd (tries + 1) ?st1"
        by (subst while_tries.simps) (auto simp: eligible_def Let_def)
      have ih: "while_tries ps sv nq dd (tries + 1) ?st1 =
         (case spec_try ps (l_db ?st1) nq dd (length ps - (tries + 1)) (l_p ?st1) of
            (Some q, p') \<Rightarrow>
              ?st1\<lparr>l_p := p',
                 l_db := (l_db ?st1)\<lparr>assignment := assignment (l_db ?st1) @ [new_assignment q dd sv]\<rparr>,
                 l_created := l_created ?st1 + 1\<rparr>
          | (None, p') \<Rightarrow> ?st1\<lparr>l_p := p', l_conflicts := l_conflicts ?st1 @ [conflict_msg dd]\<rparr>)"
      proof (cases "double_booked (l_db ?st1) ?c dd")
        case True
        from "1.IH"(1) [OF \<open>tries < length ps\<close> refl refl refl True] show ?thesis .
      next
        case nb: False
        with nel have lq: "lacks_qualification nq ?c" by (simp add: eligible_def)
        from "1.IH"(2) [OF \<open>tries < length ps\<close> refl refl refl nb lq] show ?thesis .
      qed
      from nel show ?thesis
        unfolding step ih budget by (simp add: Let_def split: prod.splits option.splits)
    qed
  qed
qed

lemma slot_step_spec:
  "locals_tuple (slot_step ps sv nq d st) = spec_slot ps sv nq d (locals_tuple st)"
  unfolding slot_step_def while_tries_spec [of ps sv nq "date_str d" 0 st]
  by (simp add: locals_tuple_def spec_slot_def split: prod.splits option.splits)

lemma run_slots_spec:
  "locals_tuple (run_slots ps sv nq ds st) = fold (spec_slot ps sv nq) ds (locals_tuple st)"
proof (induction ds arbitrary: st)
  case Nil
  show ?case by (simp add: run_slots_Nil)
next
  case (Cons d ds)
  show ?case by (simp add: run_slots_Cons Cons.IH slot_step_spec)
qed

lemma spec_days_fold:
  "spec_days ps m sv nq ds acc =
     fold (spec_slot ps sv nq) (concat (map (replicate (min (length ps) m)) ds)) acc"
  by (induction ds arbitrary: acc) (simp_all add: fold_replicate)

lemma slot_days_concat:
  "slot_days k a (py_range (b - a + 1)) = concat (map (replicate k) [a..b])"
proof -
  have "slot_days k a js = concat (map (replicate k) (map (\<lambda>i. a + i) js))" for js
    by (simp add: slot_days_def comp_def)
  then show ?thesis by (simp only: upto_as_range)
qed


section \<open>The rotation cursor\<close>

text \<open>
  C6. \<open>generate_schedule\<close> computes what the allocator of the specification computes: a
  single cursor that starts at \<open>0\<close> before the date loop and is handed from slot to slot and
  from day to day without a reset; for each slot at most \<open>length providers\<close> candidates,
  each \<open>providers ! (p mod length providers)\<close> with \<open>p\<close> incremented after the draw, and
  the first eligible one ends the slot.
\<close>

theorem generate_schedule_refines_rotation:
  "generate_schedule (Some s) req =
     (case spec_generate s req of
        Inl e \<Rightarrow> (Inl e, Some s)
      | Inr (r, s') \<Rightarrow> (Inr r, Some s'))"
proof (cases "provider s = [] \<or> reg_shifts s = []")
  case True
  then show ?thesis
    by (auto simp: generate_schedule_def spec_generate_def reg_shifts_def Let_def)
next
  case False
  then have ne: "provider s \<noteq> []" "reg_shifts s \<noteq> []" by simp_all
  let ?sv = "shift_site (hd (reg_shifts s))"
  let ?nq = "requires_qualification (hd (reg_shifts s))"
  let ?st = "run_slots (provider s) ?sv ?nq
      (slot_days (min (length (provider s)) (length (reg_shifts s))) (start_date req)
         (py_range (end_date req - start_date req + 1)))
      (initial_locals s)"
  have "locals_tuple ?st =
      spec_days (provider s) (length (reg_shifts s)) ?sv ?nq [start_date req..end_date req]
        (0, [], 0, s)"
  proof -
    have "locals_tuple (initial_locals s) = (0, [], 0, s)"
      by (simp add: locals_tuple_def initial_locals_def)
    then show ?thesis
      by (simp only: run_slots_spec spec_days_fold slot_days_concat)
  qed
  then have "spec_days (provider s) (length (reg_shifts s)) ?sv ?nq [start_date req..end_date req]
        (0, [], 0, s) = (l_created ?st, l_conflicts ?st, l_p ?st, l_db ?st)"
    by (simp only: locals_tuple_def)
  then have "spec_generate s req =
      Inr (\<lparr>created = l_created ?st, conflicts = l_conflicts ?st\<rparr>, l_db ?st)"
    using ne by (simp add: spec_generate_def)
  then show ?thesis
    by (simp add: generate_schedule_run [OF ne])
qed

theorem generate_schedule_refines_rotation_witness:
  "spec_generate ex_store ex_req = Inr (\<lparr>created = 2, conflicts = []\<rparr>, ex_after) \<and>
   generate_schedule (Some ex_store) ex_req =
     (Inr \<lparr>created = 2, conflicts = []\<rparr>, Some ex_after)"
proof -
  have sp: "spec_generate ex_store ex_req = Inr (\<lparr>created = 2, conflicts = []\<rparr>, ex_after)"
    by code_simp
  from generate_schedule_refines_rotation [of ex_store ex_req] sp show ?thesis by simp
qed

section \<open>Conflicts and eligibility along a run\<close>




lemma run_slots_conflict_days_ineligible:
  assumes "ps \<noteq> []"
  shows "\<exists>cds. l_conflicts (run_slots ps sv nq ds st) =
        l_conflicts st @ map (\<lambda>d. conflict_msg (date_str d)) cds \<and>
     (\<forall>d\<in>set cds. \<forall>q\<in>set ps. \<not> eligible (l_db (run_slots ps sv nq ds st)) nq (date_str d) q)"
proof (induction ds arbitrary: st)
  case Nil
  show ?case by (simp add: run_slots_Nil)
next
  case (Cons x ds)
  let ?st1 = "slot_step ps sv nq x st"
  from Cons.IH [of ?st1] obtain cds where cds:
    "l_conflicts (run_slots ps sv nq ds ?st1) =
        l_conflicts ?st1 @ map (\<lambda>d. conflict_msg (date_str d)) cds"
    "\<forall>d\<in>set cds. \<forall>q\<in>set ps. \<not> eligible (l_db (run_slots ps sv nq ds ?st1)) nq (date_str d) q"
    by blast
  show ?case
  proof (rule slot_step_outcome [OF assms, of st nq x sv], goal_cases)
    case (1 q k)
    then have "l_conflicts ?st1 = l_conflicts st" by (simp add: assign_def)
    with cds show ?case by (auto simp: run_slots_Cons)
  next
    case 2
    then have c1: "l_conflicts ?st1 = l_conflicts st @ [conflict_msg (date_str x)]"
      and "\<forall>q\<in>set ps. \<not> eligible (l_db ?st1) nq (date_str x) q"
      by (simp_all add: give_up_def)
    then have "\<forall>q\<in>set ps. \<not> eligible (l_db (run_slots ps sv nq ds ?st1)) nq (date_str x) q"
      using run_slots_ineligible_mono [OF assms] by blast
    with cds(2) have "\<forall>d\<in>set (x # cds). \<forall>q\<in>set ps.
        \<not> eligible (l_db (run_slots ps sv nq (x # ds) st)) nq (date_str d) q"
      by (simp add: run_slots_Cons)
    moreover have "l_conflicts (run_slots ps sv nq (x # ds) st) =
        l_conflicts st @ map (\<lambda>d. conflict_msg (date_str d)) (x # cds)"
      using cds(1) c1 by (simp add: run_slots_Cons)
    ultimately show ?case by blast
  qed
qed


lemma spec_try_gate_off:
  assumes "nq = None \<or> nq = Some []"
  shows "spec_try ps s nq dd budget p = spec_try_unqualified ps s dd budget p"
proof (induction budget arbitrary: p)
  case 0
  show ?case by simp
next
  case (Suc budget)
  from assms have "eligible s nq dd c \<longleftrightarrow> \<not> double_booked s c dd" for c
    by (auto simp: eligible_def lacks_qualification_def)
  with Suc show ?case by (simp add: Let_def)
qed

lemma spec_slot_gate_off:
  assumes "nq = None \<or> nq = Some []"
  shows "spec_slot ps sv nq d = spec_slot_unqualified ps sv d"
  by (rule ext)
     (simp add: spec_slot_def spec_slot_unqualified_def spec_try_gate_off [OF assms]
       split: prod.splits)

lemma spec_days_gate_off:
  assumes "nq = None \<or> nq = Some []"
  shows "spec_days ps m sv nq ds acc = spec_days_unqualified ps m sv ds acc"
  by (induction ds arbitrary: acc) (simp_all add: spec_slot_gate_off [OF assms])

lemma generate_schedule_spec_days:
  assumes "generate_schedule (Some s) req = (Inr r, Some s')"
  shows "\<exists>p. spec_days (provider s) (length (reg_shifts s)) (shift_site (hd (reg_shifts s)))
            (requires_qualification (hd (reg_shifts s)))
            [start_date req..end_date req] (0, [], 0, s) = (created r, conflicts r, p, s')"
proof -
  note ne = generate_schedule_Inr [OF assms]
  let ?sv = "shift_site (hd (reg_shifts s))"
  let ?nq = "requires_qualification (hd (reg_shifts s))"
  let ?st = "run_slots (provider s) ?sv ?nq
      (slot_days (min (length (provider s)) (length (reg_shifts s))) (start_date req)
         (py_range (end_date req - start_date req + 1)))
      (initial_locals s)"
  have "locals_tuple (initial_locals s) = (0, [], 0, s)"
    by (simp add: locals_tuple_def initial_locals_def)
  then have "locals_tuple ?st =
      spec_days (provider s) (length (reg_shifts s)) ?sv ?nq [start_date req..end_date req]
        (0, [], 0, s)"
    by (simp only: run_slots_spec spec_days_fold slot_days_concat)
  then have "spec_days (provider s) (length (reg_shifts s)) ?sv ?nq [start_date req..end_date req]
        (0, [], 0, s) = (l_created ?st, l_conflicts ?st, l_p ?st, l_db ?st)"
    by (simp only: locals_tuple_def)
  moreover from assms have "created r = l_created ?st" "conflicts r = l_conflicts ?st" "s' = l_db ?st"
    by (auto simp: generate_schedule_run [OF ne])
  ultimately show ?thesis by simp
qed

lemma generate_schedule_conflict_days:
  assumes "generate_schedule (Some s) req = (Inr r, Some s')"
  shows "\<exists>cds. conflicts r = map (\<lambda>d. conflict_msg (date_str d)) cds \<and>
     (\<forall>d\<in>set cds. \<forall>q\<in>set (provider s).
        \<not> eligible s' (requires_qualification (hd (reg_shifts s))) (date_str d) q)"
proof -
  note ne = generate_schedule_Inr [OF assms]
  let ?sv = "shift_site (hd (reg_shifts s))"
  let ?nq = "requires_qualification (hd (reg_shifts s))"
  let ?ds = "slot_days (min (length (provider s)) (length (reg_shifts s))) (start_date req)
         (py_range (end_date req - start_date req + 1))"
  let ?st = "run_slots (provider s) ?sv ?nq ?ds (initial_locals s)"
  from assms have r: "conflicts r = l_conflicts ?st" "s' = l_db ?st"
    by (auto simp: generate_schedule_run [OF ne])
  from run_slots_conflict_days_ineligible [OF ne(1), of ?sv ?nq ?ds "initial_locals s"]
  obtain cds where "l_conflicts ?st =
        l_conflicts (initial_locals s) @ map (\<lambda>d. conflict_msg (date_str d)) cds"
    "\<forall>d\<in>set cds. \<forall>q\<in>set (provider s). \<not> eligible (l_db ?st) ?nq (date_str d) q"
    by blast
  with r show ?thesis by (auto simp: initial_locals_def)
qed



lemma ex_dates: "date_str 738886 = ''2024-01-01''" "date_str 738887 = ''2024-01-02''"
  by code_simp+

section \<open>The qualification gate\<close>

text \<open>
  C5 as stated fails when the required qualification is the empty string: the gate tests
  \<^verbatim>\<open>needed_qual\<close> for truth, so a provider without that qualification is assigned.
\<close>

theorem empty_qualification_not_enforced:
  "generate_schedule (Some ex_store_empty_qual) ex_day =
     (Inr \<lparr>created = 1, conflicts = []\<rparr>,
      Some (ex_store_empty_qual\<lparr>assignment := [new_assignment ex_B ''2024-01-01'' ''S'']\<rparr>)) \<and>
   requires_qualification (hd (reg_shifts ex_store_empty_qual)) = Some '''' \<and>
   '''' \<notin> set (qualifications ex_B)"
  by code_simp

text \<open>
  C5, amended. A successful run only appends Assignments. When the selected REG shift type
  requires a non-empty qualification \<open>q\<close>, every appended Assignment carries the identifier
  of a provider whose qualifications contain \<open>q\<close>, and an identifier all of whose providers
  lack \<open>q\<close> is on none of them. When no qualification is required, or the empty one, the
  run is the run of the allocator whose only test is the one for an existing Assignment
  on that date: every provider passes the qualification check, and a conflict is reported
  for a day only if every provider has an Assignment on that day.
\<close>

theorem assigned_providers_hold_qualification:
  assumes "generate_schedule (Some s) req = (Inr r, Some s')"
  shows "\<exists>news. assignment s' = assignment s @ news \<and>
     (\<forall>q. requires_qualification (hd (reg_shifts s)) = Some q \<and> q \<noteq> [] \<longrightarrow>
        (\<forall>a\<in>set news. \<exists>p\<in>set (provider s).
            provider_id a = prov_id p \<and> q \<in> set (qualifications p)) \<and>
        (\<forall>pid. (\<forall>p\<in>set (provider s). prov_id p = pid \<longrightarrow> q \<notin> set (qualifications p))
            \<longrightarrow> pid \<notin> provider_id ` set news)) \<and>
     (requires_qualification (hd (reg_shifts s)) = None \<or>
      requires_qualification (hd (reg_shifts s)) = Some [] \<longrightarrow>
        (\<exists>p. spec_days_unqualified (provider s) (length (reg_shifts s))
                (shift_site (hd (reg_shifts s))) [start_date req..end_date req] (0, [], 0, s)
              = (created r, conflicts r, p, s')) \<and>
        (\<exists>cds. conflicts r = map (\<lambda>d. ''No eligible provider for '' @ date_str d) cds \<and>
           (\<forall>d\<in>set cds. \<forall>p\<in>set (provider s). double_booked s' p (date_str d))))"
proof -
  let ?sv = "shift_site (hd (reg_shifts s))"
  let ?nq = "requires_qualification (hd (reg_shifts s))"
  from generate_schedule_events [OF assms] obtain evs where evs:
    "assignment s' = assignment s
        @ map (\<lambda>(d, p). new_assignment p (date_str d) ?sv) (filled evs)"
    "\<forall>(d, p)\<in>set (filled evs). p \<in> set (provider s) \<and> \<not> lacks_qualification ?nq p"
    by blast
  let ?news = "map (\<lambda>(d, p). new_assignment p (date_str d) ?sv) (filled evs)"
  have holds: "\<forall>a\<in>set ?news. \<exists>p\<in>set (provider s).
               provider_id a = prov_id p \<and> q \<in> set (qualifications p)"
    if q: "?nq = Some q" "q \<noteq> []" for q
  proof
    fix a assume "a \<in> set ?news"
    then obtain d p where dp: "(d, p) \<in> set (filled evs)" "a = new_assignment p (date_str d) ?sv"
      by auto
    with evs(2) q(1) have "p \<in> set (provider s)" "\<not> lacks_qualification (Some q) p"
      by auto
    with q(2) dp(2) show "\<exists>p\<in>set (provider s).
               provider_id a = prov_id p \<and> q \<in> set (qualifications p)"
      by (auto simp: lacks_qualification_def new_assignment_def)
  qed
  have lacking: "\<forall>pid. (\<forall>p\<in>set (provider s). prov_id p = pid \<longrightarrow> q \<notin> set (qualifications p))
               \<longrightarrow> pid \<notin> provider_id ` set ?news"
    if q: "?nq = Some q" "q \<noteq> []" for q
  proof (intro allI impI notI)
    fix pid
    assume none: "\<forall>p\<in>set (provider s). prov_id p = pid \<longrightarrow> q \<notin> set (qualifications p)"
      and "pid \<in> provider_id ` set ?news"
    then obtain a where a: "a \<in> set ?news" "provider_id a = pid" by auto
    with holds [OF q] obtain p where "p \<in> set (provider s)" "provider_id a = prov_id p"
      "q \<in> set (qualifications p)" by blast
    with none a(2) show False by auto
  qed
  have off1: "\<exists>p. spec_days_unqualified (provider s) (length (reg_shifts s)) ?sv
        [start_date req..end_date req] (0, [], 0, s) = (created r, conflicts r, p, s')"
    if off: "?nq = None \<or> ?nq = Some []"
    using generate_schedule_spec_days [OF assms] spec_days_gate_off [OF off] by simp
  have off2: "\<exists>cds. conflicts r = map (\<lambda>d. ''No eligible provider for '' @ date_str d) cds \<and>
           (\<forall>d\<in>set cds. \<forall>p\<in>set (provider s). double_booked s' p (date_str d))"
    if off: "?nq = None \<or> ?nq = Some []"
  proof -
    from off have "eligible s' ?nq dd c \<longleftrightarrow> \<not> double_booked s' c dd" for c dd
      by (auto simp: eligible_def lacks_qualification_def)
    with generate_schedule_conflict_days [OF assms] show ?thesis
      by (simp add: conflict_msg_def)
  qed
  from evs(1) holds lacking off1 off2 show ?thesis by blast
qed

theorem assigned_providers_hold_qualification_witness:
  "(\<exists>news. assignment ex_after_X = assignment ex_store_X @ news \<and>
      (\<forall>a\<in>set news. \<exists>p\<in>set (provider ex_store_X).
          provider_id a = prov_id p \<and> ''X'' \<in> set (qualifications p)) \<and>
      ''B'' \<notin> provider_id ` set news) \<and>
   (\<exists>p. spec_days_unqualified (provider ex_store) (length (reg_shifts ex_store))
           (shift_site (hd (reg_shifts ex_store))) [start_date ex_req..end_date ex_req]
           (0, [], 0, ex_store) = (2, [], p, ex_after)) \<and>
   (\<exists>cds. [] = map (\<lambda>d. ''No eligible provider for '' @ date_str d) cds \<and>
      (\<forall>d\<in>set cds. \<forall>p\<in>set (provider ex_store). double_booked ex_after p (date_str d)))"
proof -
  have hX: "requires_qualification (hd (reg_shifts ex_store_X)) = Some ''X'' \<and> ''X'' \<noteq> []"
    by (simp add: reg_shifts_def find_all_def ex_store_X_def ex_store_def ex_reg_def)
  from assigned_providers_hold_qualification [OF ex_run_X] obtain news where n0:
    "assignment ex_after_X = assignment ex_store_X @ news \<and>
     (\<forall>q. requires_qualification (hd (reg_shifts ex_store_X)) = Some q \<and> q \<noteq> [] \<longrightarrow>
        (\<forall>a\<in>set news. \<exists>p\<in>set (provider ex_store_X).
            provider_id a = prov_id p \<and> q \<in> set (qualifications p)) \<and>
        (\<forall>pid. (\<forall>p\<in>set (provider ex_store_X). prov_id p = pid \<longrightarrow> q \<notin> set (qualifications p))
            \<longrightarrow> pid \<notin> provider_id ` set news)) \<and>
     (requires_qualification (hd (reg_shifts ex_store_X)) = None \<or>
      requires_qualification (hd (reg_shifts ex_store_X)) = Some [] \<longrightarrow>
        (\<exists>p. spec_days_unqualified (provider ex_store_X) (length (reg_shifts ex_store_X))
                (shift_site (hd (reg_shifts ex_store_X))) [start_date ex_req..end_date ex_req]
                (0, [], 0, ex_store_X)
              = (created \<lparr>created = 2, conflicts = []\<rparr>,
                 conflicts \<lparr>created = 2, conflicts = []\<rparr>, p, ex_after_X)) \<and>
        (\<exists>cds. conflicts \<lparr>created = 2, conflicts = []\<rparr> =
             map (\<lambda>d. ''No eligible provider for '' @ date_str d) cds \<and>
           (\<forall>d\<in>set cds. \<forall>p\<in>set (provider ex_store_X). double_booked ex_after_X p (date_str d))))"
    ..
  note n1 = n0 [THEN conjunct1]
  note n2 = n0 [THEN conjunct2, THEN conjunct1, THEN spec, of "''X''", THEN mp, OF hX]
  note n2a = n2 [THEN conjunct1] and n2b = n2 [THEN conjunct2, THEN spec, of "''B''"]
  have "\<forall>p\<in>set (provider ex_store_X). prov_id p = ''B'' \<longrightarrow> ''X'' \<notin> set (qualifications p)"
    by (simp add: ex_store_X_def ex_store_def ex_A_def ex_B_def)
  with n2b have "''B'' \<notin> provider_id ` set news" by (rule mp)
  with n1 n2a have part1: "\<exists>news. assignment ex_after_X = assignment ex_store_X @ news \<and>
      (\<forall>a\<in>set news. \<exists>p\<in>set (provider ex_store_X).
          provider_id a = prov_id p \<and> ''X'' \<in> set (qualifications p)) \<and>
      ''B'' \<notin> provider_id ` set news"
    by (intro exI [of _ news] conjI)
  have hN: "requires_qualification (hd (reg_shifts ex_store)) = None \<or>
      requires_qualification (hd (reg_shifts ex_store)) = Some []"
    by (simp add: reg_shifts_def find_all_def ex_store_def ex_reg_def)
  from assigned_providers_hold_qualification [OF ex_run] obtain news2 where m0:
    "assignment ex_after = assignment ex_store @ news2 \<and>
     (\<forall>q. requires_qualification (hd (reg_shifts ex_store)) = Some q \<and> q \<noteq> [] \<longrightarrow>
        (\<forall>a\<in>set news2. \<exists>p\<in>set (provider ex_store).
            provider_id a = prov_id p \<and> q \<in> set (qualifications p)) \<and>
        (\<forall>pid. (\<forall>p\<in>set (provider ex_store). prov_id p = pid \<longrightarrow> q \<notin> set (qualifications p))
            \<longrightarrow> pid \<notin> provider_id ` set news2)) \<and>
     (requires_qualification (hd (reg_shifts ex_store)) = None \<or>
      requires_qualification (hd (reg_shifts ex_store)) = Some [] \<longrightarrow>
        (\<exists>p. spec_days_unqualified (provider ex_store) (length (reg_shifts ex_store))
                (shift_site (hd (reg_shifts ex_store))) [start_date ex_req..end_date ex_req]
                (0, [], 0, ex_store)
              = (created \<lparr>created = 2, conflicts = []\<rparr>,
                 conflicts \<lparr>created = 2, conflicts = []\<rparr>, p, ex_after)) \<and>
        (\<exists>cds. conflicts \<lparr>created = 2, conflicts = []\<rparr> =
             map (\<lambda>d. ''No eligible provider for '' @ date_str d) cds \<and>
           (\<forall>d\<in>set cds. \<forall>p\<in>set (provider ex_store). double_booked ex_after p (date_str d))))"
    ..
  note m3 = m0 [THEN conjunct2, THEN conjunct2, THEN mp, OF hN]
  from m3 have part2:
    "(\<exists>p. spec_days_unqualified (provider ex_store) (length (reg_shifts ex_store))
           (shift_site (hd (reg_shifts ex_store))) [start_date ex_req..end_date ex_req]
           (0, [], 0, ex_store) = (2, [], p, ex_after)) \<and>
     (\<exists>cds. [] = map (\<lambda>d. ''No eligible provider for '' @ date_str d) cds \<and>
      (\<forall>d\<in>set cds. \<forall>p\<in>set (provider ex_store). double_booked ex_after p (date_str d)))"
    by (simp only: GenerateResponse.simps)
  from part1 part2 show ?thesis by (rule conjI)
qed

section \<open>Running generation twice\<close>




end
